theory Spec2Isabelle
  imports Main "HOL-Library.Sublist"
begin

section \<open>Plans (internal/core/plan.go)\<close>

text \<open>
  Strings are Go strings: lists of bytes. A decoded JSON value is what encoding/json stores
  in an \<open>interface{}\<close>: nil, bool, float64, string, slice or map. Numbers are restricted
  to the integers (float64 is not modelled). A Go map is an association list read with
  \<open>map_of\<close>; the nil map is \<open>None\<close>. The elements of \<open>Steps\<close> are pointers: \<open>None\<close> is
  the nil pointer (what encoding/json stores for a JSON \<open>null\<close>) and \<open>Some step\<close> points to
  \<open>step\<close>.
\<close>

datatype jvalue =
    JNull
  | JBool bool
  | JNumber int
  | JString string
  | JArray "jvalue list"
  | JObject "(string \<times> jvalue) list"

record PlanStep =
  Action :: string
  Parameters :: "(string \<times> jvalue) list option"
  ShouldContinue :: bool

record ExecutionPlan =
  Thought :: string
  Steps :: "PlanStep option list"

text \<open>
  The errors of \<open>validatePlan\<close>, one constructor for each \<open>fmt.Errorf\<close> of the function,
  carrying the arguments of its format string: the messages for a missing action and for
  missing parameters are formatted with the step number \<open>i+1\<close>, the message for an unknown
  action with the action, and the four messages for a missing parameter key are constant
  texts that contain the key and no number.
\<close>

datatype plan_error =
    MissingThought
  | MissingSteps
  | StepMissingAction nat
  | StepMissingParameters nat
  | ToolMissingToolName
  | ToolMissingInput
  | RagMissingQuery
  | ReasonMissingPrompt
  | UnknownAction string

text \<open>A call returns a value, returns an error, or panics (a nil pointer dereference, a
  failed type assertion, a method call on a nil interface).\<close>

datatype ('e, 'a) outcome = Ok 'a | Err 'e | Panic

text \<open>The comma-ok map read \<open>_, ok := m[key]\<close>; reading a nil map gives \<open>ok = false\<close>.\<close>

definition has_key :: "(string \<times> jvalue) list option \<Rightarrow> string \<Rightarrow> bool" where
  "has_key m k = (case m of None \<Rightarrow> False | Some kvs \<Rightarrow> map_of kvs k \<noteq> None)"

text \<open>The body of the loop of \<open>validatePlan\<close> for the step at index \<open>i\<close>, once the pointer
  has been followed.\<close>

definition validateStep :: "nat \<Rightarrow> PlanStep \<Rightarrow> plan_error option" where
  "validateStep i step =
     (if Action step = [] then Some (StepMissingAction (i + 1))
      else if Parameters step = None then Some (StepMissingParameters (i + 1))
      else if Action step = ''search_tool'' then
        (if \<not> has_key (Parameters step) ''tool_name'' then Some ToolMissingToolName
         else if \<not> has_key (Parameters step) ''input'' then Some ToolMissingInput
         else None)
      else if Action step = ''rag_search'' then
        (if \<not> has_key (Parameters step) ''query'' then Some RagMissingQuery else None)
      else if Action step = ''reason'' then
        (if \<not> has_key (Parameters step) ''prompt'' then Some ReasonMissingPrompt else None)
      else Some (UnknownAction (Action step)))"

text \<open>The loop of \<open>validatePlan\<close>: \<open>step.Action\<close> on a nil pointer panics. \<open>Ok ()\<close> is the nil
  error.\<close>

fun validateSteps :: "nat \<Rightarrow> PlanStep option list \<Rightarrow> (plan_error, unit) outcome" where
  "validateSteps i [] = Ok ()"
| "validateSteps i (None # rest) = Panic"
| "validateSteps i (Some step # rest) =
     (case validateStep i step of
        Some e \<Rightarrow> Err e
      | None \<Rightarrow> validateSteps (i + 1) rest)"

definition validatePlan :: "ExecutionPlan \<Rightarrow> (plan_error, unit) outcome" where
  "validatePlan plan =
     (if Thought plan = [] then Err MissingThought
      else if length (Steps plan) = 0 then Err MissingSteps
      else validateSteps 0 (Steps plan))"

subsection \<open>Extraction of the JSON text\<close>

text \<open>The inner loop of \<open>findSubstring\<close>: compares \<open>substr\<close> from index \<open>j\<close> on with
  \<open>text\<close> from index \<open>i + j\<close> on. The outer loop keeps \<open>i + j\<close> within \<open>text\<close>.\<close>

function match_at :: "string \<Rightarrow> string \<Rightarrow> nat \<Rightarrow> nat \<Rightarrow> bool" where
  "match_at text substr i j =
     (if j < length substr then
        (if text ! (i + j) \<noteq> substr ! j then False else match_at text substr i (j + 1))
      else True)"
  by pat_completeness auto
termination
  by (relation "measure (\<lambda>(text, substr, i, j). length substr - j)") auto

declare match_at.simps [simp del]

function findSubstring_loop :: "string \<Rightarrow> string \<Rightarrow> nat \<Rightarrow> int" where
  "findSubstring_loop text substr i =
     (if int i \<le> int (length text) - int (length substr) then
        (if match_at text substr i 0 then int i else findSubstring_loop text substr (i + 1))
      else - 1)"
  by pat_completeness auto
termination
  by (relation "measure (\<lambda>(text, substr, i). length text + 1 - i)") auto

declare findSubstring_loop.simps [simp del]

definition findSubstring :: "string \<Rightarrow> string \<Rightarrow> int" where
  "findSubstring text substr = findSubstring_loop text substr 0"

text \<open>The slice \<open>s[a:b]\<close>, for \<open>0 \<le> a \<le> b \<le> len(s)\<close> (the only way the code uses it).\<close>

definition slice :: "string \<Rightarrow> int \<Rightarrow> int \<Rightarrow> string" where
  "slice s a b = take (nat (b - a)) (drop (nat a) s)"

definition backtick :: char where
  "backtick = CHR 0x60"

definition newline :: char where
  "newline = CHR 0x0A"

definition codeStart :: string where
  "codeStart = [backtick, backtick, backtick]"

definition jsonStart :: string where
  "jsonStart = codeStart @ ''json''"

definition endMarkers :: "string list" where
  "endMarkers = [codeStart, [newline, newline]]"

text \<open>The loop over the end markers: the first marker found in \<open>response[start:]\<close> wins.\<close>

fun find_end :: "string \<Rightarrow> int \<Rightarrow> string list \<Rightarrow> int" where
  "find_end response start [] = - 1"
| "find_end response start (marker # markers) =
     (let idx = findSubstring (slice response start (int (length response))) marker
      in if idx \<noteq> - 1 then start + idx else find_end response start markers)"

definition extractJSONFromResponse :: "string \<Rightarrow> string" where
  "extractJSONFromResponse response =
     (let idx = findSubstring response jsonStart;
          start = (if idx \<noteq> - 1 then idx + int (length jsonStart)
                   else (let idx2 = findSubstring response codeStart
                         in if idx2 \<noteq> - 1 then idx2 + int (length codeStart) else - 1));
          end0 = (if start \<noteq> - 1 then find_end response start endMarkers else - 1);
          end1 = (if start \<noteq> - 1 \<and> end0 = - 1 then int (length response) else end0)
      in if start \<noteq> - 1 \<and> end1 \<noteq> - 1 \<and> start < end1 then slice response start end1 else [])"

subsection \<open>Parsing\<close>

text \<open>
  \<open>json.Unmarshal(data, &plan)\<close> belongs to the Go standard library, not to the repository:
  it is a parameter. It reads the text and the current value of \<open>plan\<close> and returns the
  error, if any, and the value of \<open>plan\<close> afterwards (a decoder may have stored some
  fields before it reports an error).
\<close>

type_synonym json_error = string

type_synonym decoder = "string \<Rightarrow> ExecutionPlan \<Rightarrow> json_error option \<times> ExecutionPlan"

datatype parse_error =
    NoJSONFound json_error
  | DecodeFailed json_error
  | PlanInvalid plan_error

definition zero_plan :: ExecutionPlan where
  "zero_plan = \<lparr>Thought = [], Steps = []\<rparr>"

text \<open>The end of \<open>ParseExecutionPlan\<close>: the validation of the decoded plan.\<close>

definition checked :: "ExecutionPlan \<Rightarrow> (parse_error, ExecutionPlan) outcome" where
  "checked plan =
     (case validatePlan plan of
        Err e \<Rightarrow> Err (PlanInvalid e)
      | Ok u \<Rightarrow> Ok plan
      | Panic \<Rightarrow> Panic)"

definition ParseExecutionPlan :: "decoder \<Rightarrow> string \<Rightarrow> (parse_error, ExecutionPlan) outcome" where
  "ParseExecutionPlan unmarshal response =
     (case unmarshal response zero_plan of
        (None, plan) \<Rightarrow> checked plan
      | (Some err, plan) \<Rightarrow>
          (let jsonStr = extractJSONFromResponse response
           in if jsonStr = [] then Err (NoJSONFound err)
              else (case unmarshal jsonStr plan of
                      (Some err2, plan2) \<Rightarrow> Err (DecodeFailed err2)
                    | (None, plan2) \<Rightarrow> checked plan2)))"

section \<open>The agent (internal/core/agent.go)\<close>

subsection \<open>Strings of the standard library\<close>

text \<open>
  \<open>strings.Contains\<close> asks whether the bytes of one string occur in a row in the other.
  \<open>strings.ToLower\<close> and \<open>strings.Fields\<close> work on the runes of the text with the tables
  of the Unicode standard; they belong to the Go standard library, not to the repository,
  and are parameters of the agent (\<open>stringsToLower\<close> and \<open>stringsFields\<close> below), of which
  nothing is assumed. \<open>asciiToLower\<close> and \<open>asciiFields\<close> are what the two functions compute
  for a text of ASCII bytes only (every byte below \<open>0x80\<close>): a byte from \<open>A\<close> to \<open>Z\<close> is
  mapped to its lower-case letter and every other byte is kept; the text is split at tab,
  line feed, vertical tab, form feed, carriage return and space. The example agents, whose
  texts are ASCII, use them.
\<close>

definition to_lower :: "char \<Rightarrow> char" where
  "to_lower c =
     (let n = (of_char c :: nat) in if 65 \<le> n \<and> n \<le> 90 then char_of (n + 32) else c)"

definition asciiToLower :: "string \<Rightarrow> string" where
  "asciiToLower s = map to_lower s"

definition is_space :: "char \<Rightarrow> bool" where
  "is_space c = (c \<in> set [CHR 0x09, CHR 0x0A, CHR 0x0B, CHR 0x0C, CHR 0x0D, CHR 0x20])"

fun fields_from :: "string \<Rightarrow> string \<Rightarrow> string list" where
  "fields_from cur [] = (if cur = [] then [] else [cur])"
| "fields_from cur (c # cs) =
     (if is_space c then (if cur = [] then fields_from [] cs else cur # fields_from [] cs)
      else fields_from (cur @ [c]) cs)"

definition asciiFields :: "string \<Rightarrow> string list" where
  "asciiFields s = fields_from [] s"

definition Contains :: "string \<Rightarrow> string \<Rightarrow> bool" where
  "Contains s substr = sublist substr s"

subsection \<open>Errors\<close>

text \<open>
  One constructor for each \<open>fmt.Errorf\<close>, carrying the arguments of its format string. The
  error of a backend (model, tool manager, retrieval engine) is its message.
\<close>

datatype step_error =
    UnknownStepAction string
  | ToolManagerMissing
  | ToolCallFailed string string
  | RagEngineMissing
  | RagSearchFailed string
  | ReasonFailed string

datatype recovery_error =
    RecoverToolManagerMissing
  | AllAlternativesFailed
  | RecoverRagEngineMissing
  | AllAlternativeQueriesFailed
  | RecoverReasonFailed string
  | DefaultRecoveryFailed string

datatype execute_error =
    StepFailed nat step_error recovery_error

datatype check_error =
    PlanHasNoSteps
  | StepNeedsToolManager nat
  | StepToolNameMissing nat
  | StepToolNotFound nat string
  | StepNeedsRagEngine nat
  | StepRagQueryMissing nat
  | StepReasonPromptMissing nat
  | PlanNotRelevant

datatype think_error =
    GenerateFailed string
  | ParseFailed parse_error
  | PlanCheckFailed check_error
  | RetryGenerateFailed string
  | RetryParseFailed parse_error

datatype error =
    ModelNotConfigured
  | ThinkStageFailed think_error
  | ExecuteStageFailed execute_error
  | IterationBudgetExceeded int

text \<open>The text of the errors of \<open>executeStep\<close> (\<open>err.Error()\<close>), in UTF-8.\<close>

definition marker_tool :: string where
  "marker_tool = [CHR 0xE5, CHR 0xB7, CHR 0xA5, CHR 0xE5, CHR 0x85, CHR 0xB7, CHR 0xE8, CHR 0xB0,
     CHR 0x83, CHR 0xE7, CHR 0x94, CHR 0xA8, CHR 0xE5, CHR 0xA4, CHR 0xB1, CHR 0xE8, CHR 0xB4, CHR 0xA5]"

definition marker_rag :: string where
  "marker_rag = [CHR 0x52, CHR 0x41, CHR 0x47, CHR 0xE6, CHR 0xA3, CHR 0x80, CHR 0xE7, CHR 0xB4,
     CHR 0xA2, CHR 0xE5, CHR 0xA4, CHR 0xB1, CHR 0xE8, CHR 0xB4, CHR 0xA5]"

definition marker_reason :: string where
  "marker_reason = [CHR 0xE6, CHR 0x8E, CHR 0xA8, CHR 0xE7, CHR 0x90, CHR 0x86, CHR 0xE5, CHR 0xA4,
     CHR 0xB1, CHR 0xE8, CHR 0xB4, CHR 0xA5]"

definition unknown_action_text :: string where
  "unknown_action_text = [CHR 0xE6, CHR 0x9C, CHR 0xAA, CHR 0xE7, CHR 0x9F, CHR 0xA5, CHR 0xE7,
     CHR 0x9A, CHR 0x84, CHR 0xE6, CHR 0x89, CHR 0xA7, CHR 0xE8, CHR 0xA1, CHR 0x8C, CHR 0xE5, CHR 0x8A,
     CHR 0xA8, CHR 0xE4, CHR 0xBD, CHR 0x9C, CHR 0x3A, CHR 0x20]"

definition tool_manager_missing_text :: string where
  "tool_manager_missing_text = [CHR 0xE5, CHR 0xB7, CHR 0xA5, CHR 0xE5, CHR 0x85, CHR 0xB7, CHR 0xE7,
     CHR 0xAE, CHR 0xA1, CHR 0xE7, CHR 0x90, CHR 0x86, CHR 0xE5, CHR 0x99, CHR 0xA8, CHR 0xE6, CHR 0x9C,
     CHR 0xAA, CHR 0xE9, CHR 0x85, CHR 0x8D, CHR 0xE7, CHR 0xBD, CHR 0xAE]"

definition rag_engine_missing_text :: string where
  "rag_engine_missing_text = [CHR 0x52, CHR 0x41, CHR 0x47, CHR 0xE5, CHR 0xBC, CHR 0x95, CHR 0xE6,
     CHR 0x93, CHR 0x8E, CHR 0xE6, CHR 0x9C, CHR 0xAA, CHR 0xE9, CHR 0x85, CHR 0x8D, CHR 0xE7, CHR 0xBD,
     CHR 0xAE]"

fun step_error_text :: "step_error \<Rightarrow> string" where
  "step_error_text (UnknownStepAction action) = unknown_action_text @ action"
| "step_error_text ToolManagerMissing = tool_manager_missing_text"
| "step_error_text (ToolCallFailed toolName err) = marker_tool @ '' '' @ toolName @ '': '' @ err"
| "step_error_text RagEngineMissing = rag_engine_missing_text"
| "step_error_text (RagSearchFailed err) = marker_rag @ '': '' @ err"
| "step_error_text (ReasonFailed err) = marker_reason @ '': '' @ err"

subsection \<open>Collaborators, events and state\<close>

text \<open>
  A prompt is the template that built it with the arguments of its format string (the
  text of the templates is not modelled): the think prompt and the retry prompt take the
  query, a number and the tool names; a reason step sends the plan's own prompt; the two
  recovery prompts take the history and the original prompt or the error text.
\<close>

datatype prompt =
    ThinkPrompt string int "string list"
  | RetryThinkPrompt string int "string list"
  | StepPrompt string
  | ReasonRecoveryPrompt "string list" string
  | DefaultRecoveryPrompt string "string list"

text \<open>
  The backends act on a world \<open>'w\<close> that each call may change; they return the message
  of an error (\<open>Inl\<close>) or a result. Of a \<open>ToolInfo\<close> only the name is kept, of a search
  result the content and the similarity as \<open>%.2f\<close> prints it.
\<close>

record 'w ToolManager =
  ListTools :: "'w \<Rightarrow> string list"
  ExecuteTool :: "string \<Rightarrow> string \<Rightarrow> 'w \<Rightarrow> (string + string) \<times> 'w"

record SearchResult =
  Content :: string
  Similarity :: string

record 'w RagEngine =
  Search :: "string \<Rightarrow> int \<Rightarrow> 'w \<Rightarrow> (string + SearchResult list) \<times> 'w"

text \<open>The agent: \<open>config.MaxIterations\<close>, the collaborators (\<open>None\<close> is nil; of the broker
  only whether one is set) and the functions of the standard library that the engine calls
  and that are parameters here: \<open>json.Unmarshal\<close>, \<open>strings.ToLower\<close> and
  \<open>strings.Fields\<close>.\<close>

record 'w Agent =
  MaxIterations :: int
  model :: "(prompt \<Rightarrow> 'w \<Rightarrow> (string + string) \<times> 'w) option"
  toolManager :: "'w ToolManager option"
  ragEngine :: "'w RagEngine option"
  sseBroker :: bool
  jsonUnmarshal :: decoder
  stringsToLower :: "string \<Rightarrow> string"
  stringsFields :: "string \<Rightarrow> string list"

datatype AgentStatus =
    StatusThinking
  | StatusPlanning
  | StatusExecuting
  | StatusCompleted
  | StatusError

text \<open>The id of an event is a label, for most events formatted with a number
  (\<open>think_%d\<close>, \<open>step_%d_start\<close>, ...). Message and timestamp are not modelled.\<close>

datatype event_id =
    EvStart
  | EvError
  | EvComplete
  | EvThink int
  | EvPlan int
  | EvExecute int
  | EvStepStart nat
  | EvStepError nat
  | EvStepRecovered nat
  | EvStepComplete nat

datatype event_data =
    NoData
  | PlanData ExecutionPlan
  | StepData PlanStep
  | ResultData string
  | StepResultData string bool

record AgentEvent =
  ID :: event_id
  Status :: AgentStatus
  Data :: event_data

text \<open>The state of a run: the world of the backends and the events handed to the broker
  so far, in order.\<close>

record 'w state =
  world :: 'w
  broadcast :: "AgentEvent list"

definition sendEvent ::
  "'w Agent \<Rightarrow> event_id \<Rightarrow> AgentStatus \<Rightarrow> event_data \<Rightarrow> 'w state \<Rightarrow> 'w state" where
  "sendEvent a eid status data st =
     (if sseBroker a then st\<lparr>broadcast := broadcast st @ [\<lparr>ID = eid, Status = status, Data = data\<rparr>]\<rparr>
      else st)"

text \<open>\<open>a.model.Generate(ctx, prompt)\<close>; a nil model panics.\<close>

definition Generate :: "'w Agent \<Rightarrow> prompt \<Rightarrow> 'w state \<Rightarrow> (string, string) outcome \<times> 'w state" where
  "Generate a p st =
     (case model a of
        None \<Rightarrow> (Panic, st)
      | Some generate \<Rightarrow>
          (case generate p (world st) of
             (Inl err, w) \<Rightarrow> (Err err, st\<lparr>world := w\<rparr>)
           | (Inr response, w) \<Rightarrow> (Ok response, st\<lparr>world := w\<rparr>)))"

definition availableTools :: "'w Agent \<Rightarrow> 'w state \<Rightarrow> string list" where
  "availableTools a st =
     (case toolManager a of None \<Rightarrow> [] | Some tm \<Rightarrow> ListTools tm (world st))"

definition buildThinkPrompt :: "'w Agent \<Rightarrow> string \<Rightarrow> int \<Rightarrow> 'w state \<Rightarrow> prompt" where
  "buildThinkPrompt a query iteration st = ThinkPrompt query iteration (availableTools a st)"

definition buildRetryThinkPrompt :: "'w Agent \<Rightarrow> string \<Rightarrow> int \<Rightarrow> 'w state \<Rightarrow> prompt" where
  "buildRetryThinkPrompt a query retryCount st = RetryThinkPrompt query retryCount (availableTools a st)"

subsection \<open>Semantic validation and the relevance gate\<close>

text \<open>The loop of \<open>isPlanRelevant\<close>, with its counter.\<close>

fun count_matches :: "string \<Rightarrow> string list \<Rightarrow> nat \<Rightarrow> nat" where
  "count_matches thoughtLower [] matchCount = matchCount"
| "count_matches thoughtLower (word # words) matchCount =
     count_matches thoughtLower words
       (if length word > 2 \<and> Contains thoughtLower word then matchCount + 1 else matchCount)"

text \<open>
  The comparison \<open>float64(m)/float64(n) >= 0.3\<close> on two counts. For \<open>n = 0\<close> the quotient
  is NaN when \<open>m = 0\<close> (every comparison with NaN is false) and \<open>+Inf\<close> otherwise. For
  \<open>n > 0\<close> the quotient and the constant are both rounded to the nearest float64, so the
  comparison agrees with the one of the exact fractions as long as \<open>1/(10n)\<close> is above the
  spacing of the float64 values at \<open>0.3\<close>, which is \<open>2^-54\<close>: for every query of fewer
  than \<open>10^15\<close> words.
\<close>

definition ratio_at_least_03 :: "nat \<Rightarrow> nat \<Rightarrow> bool" where
  "ratio_at_least_03 m n = (if n = 0 then m \<noteq> 0 else 3 * n \<le> 10 * m)"

definition isPlanRelevant :: "'w Agent \<Rightarrow> ExecutionPlan \<Rightarrow> string \<Rightarrow> bool" where
  "isPlanRelevant a plan query =
     (let queryLower = stringsToLower a query;
          thoughtLower = stringsToLower a (Thought plan);
          words = stringsFields a queryLower;
          matchCount = count_matches thoughtLower words 0
      in ratio_at_least_03 matchCount (length words))"

text \<open>The comma-ok assertion \<open>v, ok := m[key].(string)\<close>.\<close>

definition get_string :: "(string \<times> jvalue) list option \<Rightarrow> string \<Rightarrow> string option" where
  "get_string m k =
     (case m of
        None \<Rightarrow> None
      | Some kvs \<Rightarrow> (case map_of kvs k of Some (JString s) \<Rightarrow> Some s | _ \<Rightarrow> None))"

text \<open>The body of the loop of \<open>Agent.validatePlan\<close> for the step at index \<open>i\<close>, once the
  pointer has been followed: three \<open>if\<close> statements in a row.\<close>

definition check_tool_step :: "'w Agent \<Rightarrow> nat \<Rightarrow> PlanStep \<Rightarrow> 'w state \<Rightarrow> check_error option" where
  "check_tool_step a i step st =
     (if Action step = ''search_tool'' then
        (case toolManager a of
           None \<Rightarrow> Some (StepNeedsToolManager (i + 1))
         | Some tm \<Rightarrow>
             (case get_string (Parameters step) ''tool_name'' of
                None \<Rightarrow> Some (StepToolNameMissing (i + 1))
              | Some toolName \<Rightarrow>
                  if toolName = [] then Some (StepToolNameMissing (i + 1))
                  else if toolName \<notin> set (ListTools tm (world st))
                  then Some (StepToolNotFound (i + 1) toolName)
                  else None))
      else None)"

definition check_rag_step :: "'w Agent \<Rightarrow> nat \<Rightarrow> PlanStep \<Rightarrow> check_error option" where
  "check_rag_step a i step =
     (if Action step = ''rag_search'' then
        (case ragEngine a of
           None \<Rightarrow> Some (StepNeedsRagEngine (i + 1))
         | Some engine \<Rightarrow>
             (case get_string (Parameters step) ''query'' of
                None \<Rightarrow> Some (StepRagQueryMissing (i + 1))
              | Some queryParam \<Rightarrow>
                  if queryParam = [] then Some (StepRagQueryMissing (i + 1)) else None))
      else None)"

definition check_reason_step :: "nat \<Rightarrow> PlanStep \<Rightarrow> check_error option" where
  "check_reason_step i step =
     (if Action step = ''reason'' then
        (case get_string (Parameters step) ''prompt'' of
           None \<Rightarrow> Some (StepReasonPromptMissing (i + 1))
         | Some p \<Rightarrow> None)
      else None)"

definition check_step :: "'w Agent \<Rightarrow> nat \<Rightarrow> PlanStep \<Rightarrow> 'w state \<Rightarrow> check_error option" where
  "check_step a i step st =
     (case check_tool_step a i step st of
        Some e \<Rightarrow> Some e
      | None \<Rightarrow>
          (case check_rag_step a i step of
             Some e \<Rightarrow> Some e
           | None \<Rightarrow> check_reason_step i step))"

text \<open>The loop of \<open>Agent.validatePlan\<close>: \<open>step.Action\<close> on a nil pointer panics.\<close>

fun check_steps ::
  "'w Agent \<Rightarrow> nat \<Rightarrow> PlanStep option list \<Rightarrow> 'w state \<Rightarrow> (check_error, unit) outcome" where
  "check_steps a i [] st = Ok ()"
| "check_steps a i (None # rest) st = Panic"
| "check_steps a i (Some step # rest) st =
     (case check_step a i step st of
        Some e \<Rightarrow> Err e
      | None \<Rightarrow> check_steps a (i + 1) rest st)"

text \<open>\<open>Agent.validatePlan\<close> (the pointer to the plan is never nil here). \<open>Ok ()\<close> is the nil
  error.\<close>

definition Agent_validatePlan ::
  "'w Agent \<Rightarrow> ExecutionPlan \<Rightarrow> string \<Rightarrow> 'w state \<Rightarrow> (check_error, unit) outcome" where
  "Agent_validatePlan a plan query st =
     (if length (Steps plan) = 0 then Err PlanHasNoSteps
      else (case check_steps a 0 (Steps plan) st of
              Err e \<Rightarrow> Err e
            | Panic \<Rightarrow> Panic
            | Ok u \<Rightarrow> if \<not> isPlanRelevant a plan query then Err PlanNotRelevant else Ok ()))"

subsection \<open>The think phase\<close>

definition thinkWithRetryInternal ::
  "'w Agent \<Rightarrow> string \<Rightarrow> int \<Rightarrow> 'w state \<Rightarrow> (think_error, ExecutionPlan) outcome \<times> 'w state" where
  "thinkWithRetryInternal a query retryCount st =
     (case Generate a (buildRetryThinkPrompt a query retryCount st) st of
        (Panic, st1) \<Rightarrow> (Panic, st1)
      | (Err err, st1) \<Rightarrow> (Err (RetryGenerateFailed err), st1)
      | (Ok response, st1) \<Rightarrow>
          (case ParseExecutionPlan (jsonUnmarshal a) response of
             Panic \<Rightarrow> (Panic, st1)
           | Err err \<Rightarrow> (Err (RetryParseFailed err), st1)
           | Ok plan \<Rightarrow> (Ok plan, st1)))"

definition think ::
  "'w Agent \<Rightarrow> string \<Rightarrow> int \<Rightarrow> 'w state \<Rightarrow> (think_error, ExecutionPlan) outcome \<times> 'w state" where
  "think a query iteration st =
     (case Generate a (buildThinkPrompt a query iteration st) st of
        (Panic, st1) \<Rightarrow> (Panic, st1)
      | (Err err, st1) \<Rightarrow> (Err (GenerateFailed err), st1)
      | (Ok response, st1) \<Rightarrow>
          (case ParseExecutionPlan (jsonUnmarshal a) response of
             Panic \<Rightarrow> (Panic, st1)
           | Err err \<Rightarrow>
               if iteration < 3 then thinkWithRetryInternal a query (iteration + 1) st1
               else (Err (ParseFailed err), st1)
           | Ok plan \<Rightarrow>
               (case Agent_validatePlan a plan query st1 of
                  Panic \<Rightarrow> (Panic, st1)
                | Err err \<Rightarrow> (Err (PlanCheckFailed err), st1)
                | Ok u \<Rightarrow> (Ok plan, st1))))"

subsection \<open>Executing one step\<close>

definition executeToolStep ::
  "'w Agent \<Rightarrow> PlanStep \<Rightarrow> 'w state \<Rightarrow> (step_error, string) outcome \<times> 'w state" where
  "executeToolStep a step st =
     (case toolManager a of
        None \<Rightarrow> (Err ToolManagerMissing, st)
      | Some tm \<Rightarrow>
          (case get_string (Parameters step) ''tool_name'' of
             None \<Rightarrow> (Panic, st)
           | Some toolName \<Rightarrow>
               (case get_string (Parameters step) ''input'' of
                  None \<Rightarrow> (Panic, st)
                | Some toolInput \<Rightarrow>
                    (case ExecuteTool tm toolName toolInput (world st) of
                       (Inl err, w) \<Rightarrow> (Err (ToolCallFailed toolName err), st\<lparr>world := w\<rparr>)
                     | (Inr result, w) \<Rightarrow> (Ok result, st\<lparr>world := w\<rparr>)))))"

text \<open>Decimal digits, for \<open>%d\<close>.\<close>

function show_nat :: "nat \<Rightarrow> string" where
  "show_nat n =
     (if n < 10 then [char_of (48 + n)] else show_nat (n div 10) @ [char_of (48 + n mod 10)])"
  by pat_completeness auto
termination
  by (relation "measure (\<lambda>n. n)") auto

declare show_nat.simps [simp del]

definition no_results_text :: string where
  "no_results_text = [CHR 0xE6, CHR 0x9C, CHR 0xAA, CHR 0xE6, CHR 0x89, CHR 0xBE, CHR 0xE5, CHR 0x88,
     CHR 0xB0, CHR 0xE7, CHR 0x9B, CHR 0xB8, CHR 0xE5, CHR 0x85, CHR 0xB3, CHR 0xE7, CHR 0xBB, CHR 0x93,
     CHR 0xE6, CHR 0x9E, CHR 0x9C]"

definition results_header :: string where
  "results_header = [CHR 0xE6, CHR 0xA3, CHR 0x80, CHR 0xE7, CHR 0xB4, CHR 0xA2, CHR 0xE5, CHR 0x88,
     CHR 0xB0, CHR 0xE4, CHR 0xBB, CHR 0xA5, CHR 0xE4, CHR 0xB8, CHR 0x8B, CHR 0xE7, CHR 0x9B, CHR 0xB8,
     CHR 0xE5, CHR 0x85, CHR 0xB3, CHR 0xE4, CHR 0xBF, CHR 0xA1, CHR 0xE6, CHR 0x81, CHR 0xAF, CHR 0x3A,
     CHR 0x0A]"

definition similarity_open :: string where
  "similarity_open = [CHR 0x20, CHR 0x28, CHR 0xE7, CHR 0x9B, CHR 0xB8, CHR 0xE4, CHR 0xBC, CHR 0xBC,
     CHR 0xE5, CHR 0xBA, CHR 0xA6, CHR 0x3A, CHR 0x20]"

fun format_lines :: "nat \<Rightarrow> SearchResult list \<Rightarrow> string" where
  "format_lines i [] = []"
| "format_lines i (result # results) =
     show_nat (i + 1) @ ''. '' @ Content result @ similarity_open @ Similarity result @ '')''
       @ [CHR 0x0A] @ format_lines (i + 1) results"

definition formatRAGResults :: "SearchResult list \<Rightarrow> string" where
  "formatRAGResults results =
     (if length results = 0 then no_results_text else results_header @ format_lines 0 results)"

text \<open>\<open>topK\<close> is 5 unless \<open>top_k\<close> holds a number.\<close>

definition top_k_of :: "(string \<times> jvalue) list option \<Rightarrow> int" where
  "top_k_of m =
     (case m of
        None \<Rightarrow> 5
      | Some kvs \<Rightarrow> (case map_of kvs ''top_k'' of Some (JNumber k) \<Rightarrow> k | _ \<Rightarrow> 5))"

definition executeRAGStep ::
  "'w Agent \<Rightarrow> PlanStep \<Rightarrow> 'w state \<Rightarrow> (step_error, string) outcome \<times> 'w state" where
  "executeRAGStep a step st =
     (case ragEngine a of
        None \<Rightarrow> (Err RagEngineMissing, st)
      | Some engine \<Rightarrow>
          (case get_string (Parameters step) ''query'' of
             None \<Rightarrow> (Panic, st)
           | Some query \<Rightarrow>
               (case Search engine query (top_k_of (Parameters step)) (world st) of
                  (Inl err, w) \<Rightarrow> (Err (RagSearchFailed err), st\<lparr>world := w\<rparr>)
                | (Inr results, w) \<Rightarrow> (Ok (formatRAGResults results), st\<lparr>world := w\<rparr>))))"

definition executeReasonStep ::
  "'w Agent \<Rightarrow> PlanStep \<Rightarrow> 'w state \<Rightarrow> (step_error, string) outcome \<times> 'w state" where
  "executeReasonStep a step st =
     (case get_string (Parameters step) ''prompt'' of
        None \<Rightarrow> (Panic, st)
      | Some p \<Rightarrow>
          (case Generate a (StepPrompt p) st of
             (Panic, st1) \<Rightarrow> (Panic, st1)
           | (Err err, st1) \<Rightarrow> (Err (ReasonFailed err), st1)
           | (Ok response, st1) \<Rightarrow> (Ok response, st1)))"

definition executeStep ::
  "'w Agent \<Rightarrow> PlanStep \<Rightarrow> 'w state \<Rightarrow> (step_error, string) outcome \<times> 'w state" where
  "executeStep a step st =
     (if Action step = ''search_tool'' then executeToolStep a step st
      else if Action step = ''rag_search'' then executeRAGStep a step st
      else if Action step = ''reason'' then executeReasonStep a step st
      else (Err (UnknownStepAction (Action step)), st))"

subsection \<open>Recovery\<close>

definition alt_suffix_results :: string where
  "alt_suffix_results = [CHR 0x20, CHR 0xE5, CHR 0x9F, CHR 0xBA, CHR 0xE4, CHR 0xBA, CHR 0x8E, CHR 0xE4,
     CHR 0xB9, CHR 0x8B, CHR 0xE5, CHR 0x89, CHR 0x8D, CHR 0xE7, CHR 0x9A, CHR 0x84, CHR 0xE6, CHR 0x89,
     CHR 0xA7, CHR 0xE8, CHR 0xA1, CHR 0x8C, CHR 0xE7, CHR 0xBB, CHR 0x93, CHR 0xE6, CHR 0x9E, CHR 0x9C]"

definition alt_suffix_history :: string where
  "alt_suffix_history = [CHR 0x20, CHR 0xE7, CHR 0xBB, CHR 0x93, CHR 0xE5, CHR 0x90, CHR 0x88, CHR 0xE5,
     CHR 0x8E, CHR 0x86, CHR 0xE5, CHR 0x8F, CHR 0xB2, CHR 0xE4, CHR 0xBF, CHR 0xA1, CHR 0xE6, CHR 0x81,
     CHR 0xAF]"

definition generateAlternativeInputs :: "PlanStep \<Rightarrow> string list \<Rightarrow> string list" where
  "generateAlternativeInputs step history =
     (case get_string (Parameters step) ''input'' of
        None \<Rightarrow> []
      | Some input \<Rightarrow>
          [input] @ (if length history > 0
                     then [input @ alt_suffix_results, input @ alt_suffix_history] else []))"

definition generateAlternativeQueries :: "'w Agent \<Rightarrow> string \<Rightarrow> string list \<Rightarrow> string list" where
  "generateAlternativeQueries a query history =
     [query]
     @ (if length query > 10 then [slice query 0 (int (length query) - 5)] else [])
     @ (if length history > 0 then
          (let lastResult = last history; words = stringsFields a lastResult
           in if length words > 0 then [query @ '' '' @ hd words] else [])
        else [])"

text \<open>The loop of \<open>recoverToolError\<close>: the first call that succeeds ends it.\<close>

fun try_inputs ::
  "'w ToolManager \<Rightarrow> string \<Rightarrow> string list \<Rightarrow> 'w state
     \<Rightarrow> (recovery_error, string) outcome \<times> 'w state" where
  "try_inputs tm toolName [] st = (Err AllAlternativesFailed, st)"
| "try_inputs tm toolName (input # inputs) st =
     (case ExecuteTool tm toolName input (world st) of
        (Inr result, w) \<Rightarrow> (Ok result, st\<lparr>world := w\<rparr>)
      | (Inl err, w) \<Rightarrow> try_inputs tm toolName inputs (st\<lparr>world := w\<rparr>))"

definition recoverToolError ::
  "'w Agent \<Rightarrow> PlanStep \<Rightarrow> string list \<Rightarrow> 'w state \<Rightarrow> (recovery_error, string) outcome \<times> 'w state" where
  "recoverToolError a step history st =
     (case toolManager a of
        None \<Rightarrow> (Err RecoverToolManagerMissing, st)
      | Some tm \<Rightarrow>
          (case get_string (Parameters step) ''tool_name'' of
             None \<Rightarrow> (Panic, st)
           | Some toolName \<Rightarrow> try_inputs tm toolName (generateAlternativeInputs step history) st))"

text \<open>The loop of \<open>recoverRAGError\<close>: the first search that succeeds with a result ends it.\<close>

fun try_queries ::
  "'w RagEngine \<Rightarrow> string list \<Rightarrow> 'w state \<Rightarrow> (recovery_error, string) outcome \<times> 'w state" where
  "try_queries engine [] st = (Err AllAlternativeQueriesFailed, st)"
| "try_queries engine (altQuery # queries) st =
     (case Search engine altQuery 3 (world st) of
        (Inr results, w) \<Rightarrow>
          if length results > 0 then (Ok (formatRAGResults results), st\<lparr>world := w\<rparr>)
          else try_queries engine queries (st\<lparr>world := w\<rparr>)
      | (Inl err, w) \<Rightarrow> try_queries engine queries (st\<lparr>world := w\<rparr>))"

definition recoverRAGError ::
  "'w Agent \<Rightarrow> PlanStep \<Rightarrow> string list \<Rightarrow> 'w state \<Rightarrow> (recovery_error, string) outcome \<times> 'w state" where
  "recoverRAGError a step history st =
     (case ragEngine a of
        None \<Rightarrow> (Err RecoverRagEngineMissing, st)
      | Some engine \<Rightarrow>
          (case get_string (Parameters step) ''query'' of
             None \<Rightarrow> (Panic, st)
           | Some query \<Rightarrow> try_queries engine (generateAlternativeQueries a query history) st))"

definition recoverReasonError ::
  "'w Agent \<Rightarrow> PlanStep \<Rightarrow> string list \<Rightarrow> 'w state \<Rightarrow> (recovery_error, string) outcome \<times> 'w state" where
  "recoverReasonError a step history st =
     (case get_string (Parameters step) ''prompt'' of
        None \<Rightarrow> (Panic, st)
      | Some originalPrompt \<Rightarrow>
          (case Generate a (ReasonRecoveryPrompt history originalPrompt) st of
             (Panic, st1) \<Rightarrow> (Panic, st1)
           | (Err err, st1) \<Rightarrow> (Err (RecoverReasonFailed err), st1)
           | (Ok response, st1) \<Rightarrow> (Ok response, st1)))"

definition defaultRecovery ::
  "'w Agent \<Rightarrow> PlanStep \<Rightarrow> string list \<Rightarrow> string \<Rightarrow> 'w state
     \<Rightarrow> (recovery_error, string) outcome \<times> 'w state" where
  "defaultRecovery a step history errorMsg st =
     (case Generate a (DefaultRecoveryPrompt errorMsg history) st of
        (Panic, st1) \<Rightarrow> (Panic, st1)
      | (Err err, st1) \<Rightarrow> (Err (DefaultRecoveryFailed err), st1)
      | (Ok response, st1) \<Rightarrow> (Ok response, st1))"

definition recoverFromError ::
  "'w Agent \<Rightarrow> PlanStep \<Rightarrow> step_error \<Rightarrow> string list \<Rightarrow> 'w state
     \<Rightarrow> (recovery_error, string) outcome \<times> 'w state" where
  "recoverFromError a step err history st =
     (let errorMsg = step_error_text err
      in if Action step = ''search_tool'' \<and> Contains errorMsg marker_tool
         then recoverToolError a step history st
         else if Action step = ''rag_search'' \<and> Contains errorMsg marker_rag
         then recoverRAGError a step history st
         else if Action step = ''reason'' \<and> Contains errorMsg marker_reason
         then recoverReasonError a step history st
         else defaultRecovery a step history errorMsg st)"

subsection \<open>The execute phase and the loop\<close>

text \<open>One pass of the loop of \<open>execute\<close> up to the step's result: the step, and the
  recovery when the step returns an error.\<close>

definition attempt_step ::
  "'w Agent \<Rightarrow> nat \<Rightarrow> PlanStep \<Rightarrow> string list \<Rightarrow> 'w state
     \<Rightarrow> (execute_error, string) outcome \<times> 'w state" where
  "attempt_step a i step executionHistory st =
     (case executeStep a step st of
        (Ok stepResult, st1) \<Rightarrow> (Ok stepResult, st1)
      | (Panic, st1) \<Rightarrow> (Panic, st1)
      | (Err err, st1) \<Rightarrow>
          (let st2 = sendEvent a (EvStepError (i + 1)) StatusError NoData st1
           in case recoverFromError a step err executionHistory st2 of
                (Ok recoveredResult, st3) \<Rightarrow>
                  (Ok recoveredResult,
                   sendEvent a (EvStepRecovered (i + 1)) StatusExecuting (ResultData recoveredResult) st3)
              | (Err recoverErr, st3) \<Rightarrow> (Err (StepFailed (i + 1) err recoverErr), st3)
              | (Panic, st3) \<Rightarrow> (Panic, st3)))"

text \<open>The loop of \<open>execute\<close> over the steps from index \<open>i\<close> on, with its variables
  \<open>result\<close>, \<open>shouldContinue\<close> and \<open>executionHistory\<close>; \<open>n\<close> is \<open>len(plan.Steps)\<close>. The
  first statement of the body reads \<open>step.Action\<close>, which panics on a nil pointer.\<close>

fun execute_loop ::
  "'w Agent \<Rightarrow> nat \<Rightarrow> nat \<Rightarrow> PlanStep option list \<Rightarrow> string \<Rightarrow> bool \<Rightarrow> string list \<Rightarrow> 'w state
     \<Rightarrow> (execute_error, string \<times> bool) outcome \<times> 'w state" where
  "execute_loop a n i [] result shouldContinue executionHistory st =
     (Ok (result, shouldContinue), st)"
| "execute_loop a n i (None # rest) result shouldContinue executionHistory st = (Panic, st)"
| "execute_loop a n i (Some step # rest) result shouldContinue executionHistory st =
     (case attempt_step a i step executionHistory
             (sendEvent a (EvStepStart (i + 1)) StatusExecuting (StepData step) st) of
        (Panic, st1) \<Rightarrow> (Panic, st1)
      | (Err err, st1) \<Rightarrow> (Err err, st1)
      | (Ok stepResult, st1) \<Rightarrow>
          (let st2 = sendEvent a (EvStepComplete (i + 1)) StatusExecuting
                       (StepResultData stepResult (ShouldContinue step)) st1
           in if ShouldContinue step \<and> int i < int n - 1
              then execute_loop a n (i + 1) rest stepResult (ShouldContinue step)
                     (executionHistory @ [stepResult]) st2
              else (Ok (stepResult, ShouldContinue step), st2)))"

definition execute ::
  "'w Agent \<Rightarrow> ExecutionPlan \<Rightarrow> 'w state \<Rightarrow> (execute_error, string \<times> bool) outcome \<times> 'w state" where
  "execute a plan st = execute_loop a (length (Steps plan)) 0 (Steps plan) [] False [] st"

text \<open>The loop of \<open>thinkExecuteLoop\<close>, entered with the values of \<open>iteration\<close> and
  \<open>currentQuery\<close>.\<close>

function thinkExecuteLoop_from ::
  "'w Agent \<Rightarrow> int \<Rightarrow> string \<Rightarrow> 'w state \<Rightarrow> (error, string) outcome \<times> 'w state" where
  "thinkExecuteLoop_from a iteration currentQuery st =
     (if iteration < MaxIterations a then
        (case think a currentQuery (iteration + 1)
                (sendEvent a (EvThink (iteration + 1)) StatusThinking NoData st) of
           (Panic, st1) \<Rightarrow> (Panic, st1)
         | (Err err, st1) \<Rightarrow> (Err (ThinkStageFailed err), st1)
         | (Ok plan, st1) \<Rightarrow>
             (case execute a plan
                     (sendEvent a (EvExecute (iteration + 1)) StatusExecuting (PlanData plan)
                        (sendEvent a (EvPlan (iteration + 1)) StatusPlanning (PlanData plan) st1)) of
                (Panic, st2) \<Rightarrow> (Panic, st2)
              | (Err err, st2) \<Rightarrow> (Err (ExecuteStageFailed err), st2)
              | (Ok (result, shouldContinue), st2) \<Rightarrow>
                  if \<not> shouldContinue then (Ok result, st2)
                  else thinkExecuteLoop_from a (iteration + 1) result st2))
      else (Err (IterationBudgetExceeded (MaxIterations a)), st))"
  by pat_completeness auto
termination
  by (relation "measure (\<lambda>(a, iteration, currentQuery, st). nat (MaxIterations a - iteration))") auto

declare thinkExecuteLoop_from.simps [simp del]

definition thinkExecuteLoop ::
  "'w Agent \<Rightarrow> string \<Rightarrow> 'w state \<Rightarrow> (error, string) outcome \<times> 'w state" where
  "thinkExecuteLoop a query st = thinkExecuteLoop_from a 0 query st"

text \<open>\<open>Execute\<close>. The deadline of the context reaches the backends only: the engine itself
  never reads it.\<close>

definition Execute :: "'w Agent \<Rightarrow> string \<Rightarrow> 'w state \<Rightarrow> (error, string) outcome \<times> 'w state" where
  "Execute a query st =
     (if model a = None then (Err ModelNotConfigured, st)
      else (case thinkExecuteLoop a query (sendEvent a EvStart StatusThinking NoData st) of
              (Panic, st1) \<Rightarrow> (Panic, st1)
            | (Err err, st1) \<Rightarrow> (Err err, sendEvent a EvError StatusError NoData st1)
            | (Ok result, st1) \<Rightarrow>
                (Ok result, sendEvent a EvComplete StatusCompleted (ResultData result) st1)))"

section \<open>The event broker (package sse)\<close>

subsection \<open>Events and their wire format\<close>

text \<open>
  An event as \<open>serializeEvent\<close> reads it: id, event name, the result of
  \<open>json.Marshal\<close> on the data (\<open>None\<close> when marshalling fails; the marshaller belongs to
  the standard library) and the retry time. The fields carry the prefix \<open>sse\<close> to keep
  them apart from those of \<open>AgentEvent\<close>.
\<close>

record Event =
  sseID :: string
  sseEvent :: string
  sseData :: "string option"
  sseRetry :: int

text \<open>Decimal digits of an \<open>int\<close> that is not negative, for \<open>%d\<close>.\<close>

function show_int :: "int \<Rightarrow> string" where
  "show_int n =
     (if n < 10 then [char_of (48 + n)] else show_int (n div 10) @ [char_of (48 + n mod 10)])"
  by pat_completeness auto
termination
  by (relation "measure (\<lambda>n. nat n)") auto

declare show_int.simps [simp del]

text \<open>The loop of \<open>splitLines\<close>: \<open>cur\<close> is the line read so far; empty lines are
  left out.\<close>

fun split_from :: "string \<Rightarrow> string \<Rightarrow> string list" where
  "split_from cur [] = (if cur \<noteq> [] then [cur] else [])"
| "split_from cur (c # cs) =
     (if c = newline then (if cur \<noteq> [] then cur # split_from [] cs else split_from [] cs)
      else split_from (cur @ [c]) cs)"

definition splitLines :: "string \<Rightarrow> string list" where
  "splitLines s = split_from [] s"

definition serializeEvent :: "Event \<Rightarrow> string option" where
  "serializeEvent event =
     (case sseData event of
        None \<Rightarrow> None
      | Some jsonData \<Rightarrow>
          Some ((if sseID event \<noteq> [] then ''id: '' @ sseID event @ [newline] else [])
                @ (if sseEvent event \<noteq> [] then ''event: '' @ sseEvent event @ [newline] else [])
                @ concat (map (\<lambda>line. ''data: '' @ line @ [newline]) (splitLines jsonData))
                @ (if sseRetry event > 0
                   then ''retry: '' @ show_int (sseRetry event) @ [newline] else [])
                @ [newline]))"

subsection \<open>Clients\<close>

text \<open>
  A client: its id, the buffer of its channel \<open>events\<close> (capacity 100), and whether the
  channels \<open>done\<close> and \<open>events\<close> are closed.
\<close>

record Client =
  ClientID :: string
  events :: "string list"
  done_closed :: bool
  events_closed :: bool

definition NewClient :: "string \<Rightarrow> Client" where
  "NewClient cid = \<lparr>ClientID = cid, events = [], done_closed = False, events_closed = False\<rparr>"

text \<open>
  \<open>Client.Send\<close>: a \<open>select\<close> over the send to \<open>events\<close>, the receive from \<open>done\<close> and
  a default. The send is ready when the buffer has room, or when the channel is closed
  (the send then panics); the receive is ready when \<open>done\<close> is closed. When both are ready
  Go chooses one of them at random: \<open>pick\<close> says whether it is the send. With the default
  branch the call returns at once in every case.
\<close>

definition Send :: "bool \<Rightarrow> Client \<Rightarrow> string \<Rightarrow> (unit, bool) outcome \<times> Client" where
  "Send pick c event =
     (let send_ready = (events_closed c \<or> length (events c) < 100);
          done_ready = done_closed c
      in if send_ready \<and> (\<not> done_ready \<or> pick) then
           (if events_closed c then (Panic, c)
            else (Ok True, c\<lparr>events := events c @ [event]\<rparr>))
         else if done_ready then (Ok False, c)
         else (Ok False, c))"

text \<open>\<open>Client.Close\<close> closes \<open>done\<close> and then \<open>events\<close>; closing a closed channel panics.\<close>

definition Close :: "Client \<Rightarrow> (unit, unit) outcome \<times> Client" where
  "Close c =
     (if done_closed c then (Panic, c)
      else if events_closed c then (Panic, c\<lparr>done_closed := True\<rparr>)
      else (Ok (), c\<lparr>done_closed := True, events_closed := True\<rparr>))"

subsection \<open>The broker and its goroutines\<close>

text \<open>
  The broker with everything that runs around it. The clients are objects on a heap
  (a list; an address is an index); the map \<open>clients\<close> takes an id to the address of its
  client; \<open>inbox\<close> is the buffer of the channel \<open>b.events\<close> (capacity 1000); \<open>tasks\<close> are
  the goroutines that \<open>run\<close> has started for a send and that have not run yet, each with
  the address of its client and the bytes to send; \<open>streams\<close> holds, for the client at
  each address, what the loop of \<open>Subscribe\<close> has written to its response so far (after
  the greeting that \<open>Subscribe\<close> writes first); \<open>stopped\<close> says
  that the loop of \<open>run\<close> has returned; \<open>panicked\<close> says that a goroutine has panicked
  (which ends the program).
\<close>

record System =
  heap :: "Client list"
  clients :: "(string \<times> nat) list"
  inbox :: "Event list"
  tasks :: "(nat \<times> string) list"
  streams :: "string list list"
  stopped :: bool
  panicked :: bool

definition NewBroker :: System where
  "NewBroker =
     \<lparr>heap = [], clients = [], inbox = [], tasks = [], streams = [], stopped = False,
      panicked = False\<rparr>"

text \<open>\<open>Broadcast\<close>: a \<open>select\<close> over the send to \<open>b.events\<close> and a default that drops
  the event. The id is the clock reading \<open>now\<close>.\<close>

definition Broadcast :: "string \<Rightarrow> string \<Rightarrow> string option \<Rightarrow> System \<Rightarrow> System" where
  "Broadcast now eventType data s =
     (let event = \<lparr>sseID = now, sseEvent = eventType, sseData = data, sseRetry = 5000\<rparr>
      in if length (inbox s) < 1000 then s\<lparr>inbox := inbox s @ [event]\<rparr> else s)"

text \<open>
  The steps of the system. \<open>Register\<close>: \<open>Subscribe\<close> makes a client and the loop of \<open>run\<close>
  stores it under its id. \<open>Unregister\<close>: the loop closes and deletes the client of an id.
  \<open>Publish\<close>: some goroutine calls \<open>Broadcast\<close>. \<open>Dispatch\<close>: the loop takes the next event
  from \<open>b.events\<close>, serializes it (an event that cannot be serialized is skipped) and starts
  one goroutine for each client of the map. \<open>Fire k pick\<close>: the \<open>k\<close>-th waiting goroutine
  runs its \<open>Send\<close>. \<open>Write a\<close>: the loop of \<open>Subscribe\<close> for the client at address \<open>a\<close>
  receives the next event of its channel and writes it. \<open>Shutdown\<close>: the loop receives
  from \<open>b.stop\<close>, closes every client of the map, empties the map and returns; after it
  the loop takes no client, no id and no event any more. A step that is not possible
  leaves the state as it is, and so does every step after a panic.
\<close>

datatype operation =
    Register string
  | Unregister string
  | Publish string string "string option"
  | Dispatch
  | Fire nat bool
  | Write nat
  | Shutdown

definition remove_nth :: "nat \<Rightarrow> 'a list \<Rightarrow> 'a list" where
  "remove_nth k xs = take k xs @ drop (Suc k) xs"

text \<open>The loop of the \<open>stop\<close> case over the clients at the given addresses: the heap
  afterwards, and whether a \<open>Close\<close> has panicked.\<close>

fun close_all :: "nat list \<Rightarrow> Client list \<Rightarrow> bool \<times> Client list" where
  "close_all [] h = (False, h)"
| "close_all (a # as) h =
     (if a < length h then
        (case Close (h ! a) of
           (Ok u, c) \<Rightarrow> close_all as (h[a := c])
         | (Err e, c) \<Rightarrow> close_all as (h[a := c])
         | (Panic, c) \<Rightarrow> (True, h[a := c]))
      else close_all as h)"

fun perform :: "operation \<Rightarrow> System \<Rightarrow> System" where
  "perform (Register cid) s =
     (if stopped s then s
      else s\<lparr>heap := heap s @ [NewClient cid],
             streams := streams s @ [[]],
             clients := (cid, length (heap s)) # filter (\<lambda>(k, a). k \<noteq> cid) (clients s)\<rparr>)"
| "perform (Unregister cid) s =
     (if stopped s then s
      else (case map_of (clients s) cid of
              None \<Rightarrow> s
            | Some a \<Rightarrow>
                if a < length (heap s) then
                  (case Close (heap s ! a) of
                     (Ok u, c) \<Rightarrow>
                       s\<lparr>heap := (heap s)[a := c],
                         clients := filter (\<lambda>(k, a). k \<noteq> cid) (clients s)\<rparr>
                   | (Err e, c) \<Rightarrow> s
                   | (Panic, c) \<Rightarrow> s\<lparr>heap := (heap s)[a := c], panicked := True\<rparr>)
                else s))"
| "perform (Publish now eventType data) s = Broadcast now eventType data s"
| "perform Dispatch s =
     (if stopped s then s
      else (case inbox s of
              [] \<Rightarrow> s
            | event # rest \<Rightarrow>
                (case serializeEvent event of
                   None \<Rightarrow> s\<lparr>inbox := rest\<rparr>
                 | Some eventBytes \<Rightarrow>
                     s\<lparr>inbox := rest,
                       tasks := tasks s @ map (\<lambda>(k, a). (a, eventBytes)) (clients s)\<rparr>)))"
| "perform Shutdown s =
     (if stopped s then s
      else (case close_all (map snd (clients s)) (heap s) of
              (True, h) \<Rightarrow> s\<lparr>heap := h, panicked := True\<rparr>
            | (False, h) \<Rightarrow> s\<lparr>heap := h, clients := [], stopped := True\<rparr>))"
| "perform (Fire k pick) s =
     (if k < length (tasks s) \<and> fst (tasks s ! k) < length (heap s) then
        (case Send pick (heap s ! fst (tasks s ! k)) (snd (tasks s ! k)) of
           (Panic, c) \<Rightarrow> s\<lparr>tasks := remove_nth k (tasks s), panicked := True\<rparr>
         | (Err e, c) \<Rightarrow> s\<lparr>tasks := remove_nth k (tasks s)\<rparr>
         | (Ok sent, c) \<Rightarrow>
             s\<lparr>heap := (heap s)[fst (tasks s ! k) := c], tasks := remove_nth k (tasks s)\<rparr>)
      else s)"
| "perform (Write a) s =
     (if a < length (heap s) \<and> a < length (streams s) then
        (case events (heap s ! a) of
           [] \<Rightarrow> s
         | event # rest \<Rightarrow>
             s\<lparr>heap := (heap s)[a := (heap s ! a)\<lparr>events := rest\<rparr>],
               streams := (streams s)[a := streams s ! a @ [event]]\<rparr>)
      else s)"

definition exec :: "operation \<Rightarrow> System \<Rightarrow> System" where
  "exec operation s = (if panicked s then s else perform operation s)"

fun run_ops :: "operation list \<Rightarrow> System \<Rightarrow> System" where
  "run_ops [] s = s"
| "run_ops (operation # operations) s = run_ops operations (exec operation s)"

section \<open>Notions of the specification and example data\<close>

subsection \<open>Valid plans\<close>

text \<open>
  The specification's valid plan: a non-empty thought, at least one step, and each step
  (a step, not a null) with one of the three known actions and the parameter keys that
  action requires.
\<close>

definition required_keys :: "string \<Rightarrow> string list" where
  "required_keys action =
     (if action = ''search_tool'' then [''tool_name'', ''input'']
      else if action = ''rag_search'' then [''query'']
      else if action = ''reason'' then [''prompt'']
      else [])"

definition known_action :: "string \<Rightarrow> bool" where
  "known_action action = (action = ''search_tool'' \<or> action = ''rag_search'' \<or> action = ''reason'')"

definition step_complete :: "PlanStep \<Rightarrow> bool" where
  "step_complete step =
     (known_action (Action step) \<and> list_all (has_key (Parameters step)) (required_keys (Action step)))"

definition present_and_complete :: "PlanStep option \<Rightarrow> bool" where
  "present_and_complete s = (case s of None \<Rightarrow> False | Some step \<Rightarrow> step_complete step)"

definition valid_plan :: "ExecutionPlan \<Rightarrow> bool" where
  "valid_plan plan =
     (Thought plan \<noteq> [] \<and> Steps plan \<noteq> [] \<and> list_all present_and_complete (Steps plan))"

definition lacks_required :: "PlanStep \<Rightarrow> bool" where
  "lacks_required step = list_ex (\<lambda>k. \<not> has_key (Parameters step) k) (required_keys (Action step))"

fun named_step :: "plan_error \<Rightarrow> nat option" where
  "named_step (StepMissingAction n) = Some n"
| "named_step (StepMissingParameters n) = Some n"
| "named_step e = None"

fun named_key :: "plan_error \<Rightarrow> string option" where
  "named_key ToolMissingToolName = Some ''tool_name''"
| "named_key ToolMissingInput = Some ''input''"
| "named_key RagMissingQuery = Some ''query''"
| "named_key ReasonMissingPrompt = Some ''prompt''"
| "named_key e = None"

definition complete_reason_step :: PlanStep where
  "complete_reason_step =
     \<lparr>Action = ''reason'', Parameters = Some [(''prompt'', JString ''2+2'')], ShouldContinue = True\<rparr>"

definition step_without_tool_name :: PlanStep where
  "step_without_tool_name =
     \<lparr>Action = ''search_tool'', Parameters = Some [(''input'', JString ''go'')], ShouldContinue = False\<rparr>"

definition step_without_parameters :: PlanStep where
  "step_without_parameters = \<lparr>Action = ''rag_search'', Parameters = None, ShouldContinue = False\<rparr>"

definition step_without_action :: PlanStep where
  "step_without_action =
     \<lparr>Action = [], Parameters = Some [(''prompt'', JString ''2+2'')], ShouldContinue = False\<rparr>"

subsection \<open>The relevance gate\<close>

text \<open>
  The words of a query (the fields of the lower-case query, as the agent's library
  functions compute them), the specification's significant words (the words of more than
  two bytes) and those of them that occur in the lower-case thought.
\<close>

definition query_words :: "'w Agent \<Rightarrow> string \<Rightarrow> string list" where
  "query_words a query = stringsFields a (stringsToLower a query)"

definition significant_words :: "'w Agent \<Rightarrow> string \<Rightarrow> string list" where
  "significant_words a query = filter (\<lambda>w. length w > 2) (query_words a query)"

definition matching_words :: "'w Agent \<Rightarrow> ExecutionPlan \<Rightarrow> string \<Rightarrow> string list" where
  "matching_words a plan query =
     filter (\<lambda>w. sublist w (stringsToLower a (Thought plan))) (significant_words a query)"

subsection \<open>Fenced JSON\<close>

text \<open>An occurrence of \<open>substr\<close> in \<open>text\<close> at index \<open>k\<close>.\<close>

definition occurs_at :: "string \<Rightarrow> string \<Rightarrow> nat \<Rightarrow> bool" where
  "occurs_at text substr k =
     (k + length substr \<le> length text \<and> take (length substr) (drop k text) = substr)"

text \<open>
  The JSON content \<open>j\<close> in a fenced code block tagged \<open>json\<close>, as the specification
  writes it: the opening fence, a line feed, the content, a line feed, the closing fence.
  \<open>plan_of\<close> is the plan a parse yields, if it yields one.
\<close>

definition fenced :: "string \<Rightarrow> string" where
  "fenced j = jsonStart @ [newline] @ j @ [newline] @ codeStart"

definition plan_of :: "(parse_error, ExecutionPlan) outcome \<Rightarrow> ExecutionPlan option" where
  "plan_of r = (case r of Ok plan \<Rightarrow> Some plan | Err e \<Rightarrow> None | Panic \<Rightarrow> None)"

subsection \<open>Example texts and decoders\<close>

text \<open>
  JSON texts for the examples: a plan with one reason step (prompt \<open>2+2\<close>, no
  \<open>should_continue\<close>, so it is false) and the given thought. The decoder of an example
  decodes the JSON texts of its table, with white space around them or not, to their plans
  and rejects every
  other text the way encoding/json rejects a syntax error: with an error and without
  storing anything. Each example says which texts its decoder is applied to; on those it
  agrees with encoding/json.
\<close>

definition dq :: char where
  "dq = CHR 0x22"

definition quoted :: "string \<Rightarrow> string" where
  "quoted s = dq # s @ [dq]"

definition is_json_space :: "char \<Rightarrow> bool" where
  "is_json_space c = (c \<in> set [CHR 0x20, CHR 0x09, CHR 0x0A, CHR 0x0D])"

definition trim :: "string \<Rightarrow> string" where
  "trim s = rev (dropWhile is_json_space (rev (dropWhile is_json_space s)))"

definition decodes :: "(string \<times> ExecutionPlan) list \<Rightarrow> decoder" where
  "decodes table =
     (\<lambda>s p. case map_of table (trim s) of
               Some plan \<Rightarrow> (None, plan)
             | None \<Rightarrow> (Some ''invalid character'', p))"

definition reason_step_json :: string where
  "reason_step_json =
     ''{'' @ quoted ''action'' @ '':'' @ quoted ''reason'' @ '','' @ quoted ''parameters'' @ '':{''
       @ quoted ''prompt'' @ '':'' @ quoted ''2+2'' @ ''}}''"

definition reason_step :: PlanStep where
  "reason_step =
     \<lparr>Action = ''reason'', Parameters = Some [(''prompt'', JString ''2+2'')], ShouldContinue = False\<rparr>"

definition plan_json :: "string \<Rightarrow> string" where
  "plan_json thought =
     ''{'' @ quoted ''thought'' @ '':'' @ quoted thought @ '','' @ quoted ''steps'' @ '':[''
       @ reason_step_json @ '']}''"

definition ticks_thought :: string where
  "ticks_thought = ''wrap the answer in '' @ codeStart @ '' fences''"

subsection \<open>Passes of the loop, example agents\<close>

text \<open>
  \<open>continuing_passes a k iteration query st\<close>: the next \<open>k\<close> passes of the loop of
  \<open>thinkExecuteLoop\<close>, entered with \<open>iteration\<close>, \<open>query\<close> and \<open>st\<close>, all complete
  (the think phase returns a plan and the execute phase a result) and all return
  \<open>shouldContinue = true\<close>; the value is the query and the state after them.
\<close>

fun continuing_passes ::
  "'w Agent \<Rightarrow> nat \<Rightarrow> int \<Rightarrow> string \<Rightarrow> 'w state \<Rightarrow> (string \<times> 'w state) option" where
  "continuing_passes a 0 iteration query st = Some (query, st)"
| "continuing_passes a (Suc k) iteration query st =
     (if iteration < MaxIterations a then
        (case think a query (iteration + 1)
                (sendEvent a (EvThink (iteration + 1)) StatusThinking NoData st) of
           (Ok plan, st1) \<Rightarrow>
             (case execute a plan
                     (sendEvent a (EvExecute (iteration + 1)) StatusExecuting (PlanData plan)
                        (sendEvent a (EvPlan (iteration + 1)) StatusPlanning (PlanData plan) st1)) of
                (Ok (result, shouldContinue), st2) \<Rightarrow>
                  if shouldContinue then continuing_passes a k (iteration + 1) result st2 else None
              | (Err err, st2) \<Rightarrow> None
              | (Panic, st2) \<Rightarrow> None)
         | (Err err, st1) \<Rightarrow> None
         | (Panic, st1) \<Rightarrow> None)
      else None)"

text \<open>The events of a status among those broadcast so far.\<close>

definition events_of :: "AgentStatus \<Rightarrow> 'w state \<Rightarrow> AgentEvent list" where
  "events_of status st = filter (\<lambda>e. Status e = status) (broadcast st)"

text \<open>
  Example backends. The world is the number of model calls made so far; the model answers
  its \<open>n\<close>-th call with the \<open>n\<close>-th entry of a script. The tool manager has one tool,
  which returns its input. The example agent has a budget of three passes and a broker;
  its texts are ASCII.
\<close>

definition scripted :: "(string + string) list \<Rightarrow> prompt \<Rightarrow> nat \<Rightarrow> (string + string) \<times> nat" where
  "scripted answers p w = (if w < length answers then answers ! w else Inl ''no answer'', w + 1)"

definition echo_tools :: "nat ToolManager" where
  "echo_tools = \<lparr>ListTools = (\<lambda>w. [''web_search'']), ExecuteTool = (\<lambda>name input w. (Inr input, w))\<rparr>"

definition demo_agent :: "(string + string) list \<Rightarrow> decoder \<Rightarrow> nat Agent" where
  "demo_agent answers unmarshal =
     \<lparr>MaxIterations = 3, model = Some (scripted answers), toolManager = Some echo_tools,
      ragEngine = None, sseBroker = True, jsonUnmarshal = unmarshal,
      stringsToLower = asciiToLower, stringsFields = asciiFields\<rparr>"

text \<open>An agent without answers, for the examples of the relevance gate.\<close>

definition ascii_agent :: "nat Agent" where
  "ascii_agent = demo_agent [] (decodes [])"

definition start_state :: "nat state" where
  "start_state = \<lparr>world = 0, broadcast = []\<rparr>"

text \<open>The model answers the think prompt with the one-step arithmetic plan of the given
  thought and the reason step with \<open>4\<close>.\<close>

definition arithmetic_agent :: "string \<Rightarrow> nat Agent" where
  "arithmetic_agent thought =
     demo_agent [Inr (plan_json thought), Inr ''4'']
       (decodes [(plan_json thought, \<lparr>Thought = thought, Steps = [Some reason_step]\<rparr>)])"

text \<open>A tool step whose \<open>input\<close> is the number 42, its plan, and the JSON text of the
  plan.\<close>

definition number_input_step :: PlanStep where
  "number_input_step =
     \<lparr>Action = ''search_tool'',
      Parameters = Some [(''tool_name'', JString ''web_search''), (''input'', JNumber 42)],
      ShouldContinue = False\<rparr>"

definition number_input_plan :: ExecutionPlan where
  "number_input_plan = \<lparr>Thought = ''search the weather'', Steps = [Some number_input_step]\<rparr>"

definition number_input_json :: string where
  "number_input_json =
     ''{'' @ quoted ''thought'' @ '':'' @ quoted ''search the weather'' @ '','' @ quoted ''steps''
       @ '':[{'' @ quoted ''action'' @ '':'' @ quoted ''search_tool'' @ '','' @ quoted ''parameters''
       @ '':{'' @ quoted ''tool_name'' @ '':'' @ quoted ''web_search'' @ '','' @ quoted ''input''
       @ '':42}}]}''"

definition number_input_agent :: "nat Agent" where
  "number_input_agent =
     demo_agent [Inr number_input_json] (decodes [(number_input_json, number_input_plan)])"

text \<open>
  Agents for the think phase: the first model answers with the plan whose thought is
  \<open>solve arithmetic\<close> and would answer a second request with a plan that passes the
  relevance gate; the second answers twice with prose and would answer a third request with
  a plan.
\<close>

definition prose_answers :: "(string + string) list" where
  "prose_answers =
     [Inr ''Let me think.'', Inr ''I would add them.'', Inr (plan_json ''what is 2+2''), Inr ''4'']"

definition retry_agent :: "nat Agent" where
  "retry_agent =
     demo_agent [Inr (plan_json ''solve arithmetic''), Inr (plan_json ''what is 2+2''), Inr ''4'']
       (decodes [(plan_json ''solve arithmetic'', \<lparr>Thought = ''solve arithmetic'', Steps = [Some reason_step]\<rparr>),
                 (plan_json ''what is 2+2'', \<lparr>Thought = ''what is 2+2'', Steps = [Some reason_step]\<rparr>)])"

definition prose_agent :: "nat Agent" where
  "prose_agent =
     demo_agent prose_answers
       (decodes [(plan_json ''what is 2+2'', \<lparr>Thought = ''what is 2+2'', Steps = [Some reason_step]\<rparr>)])"

text \<open>
  A model that records the prompts it is sent: its world is the list of the prompts so
  far, paired with the world of the model proper. \<open>prompts_sent\<close> reads the list. A retry
  prompt is a prompt built by \<open>buildRetryThinkPrompt\<close>.
\<close>

definition recording ::
  "(prompt \<Rightarrow> 'w \<Rightarrow> (string + string) \<times> 'w)
     \<Rightarrow> prompt \<Rightarrow> prompt list \<times> 'w \<Rightarrow> (string + string) \<times> (prompt list \<times> 'w)" where
  "recording generate p w = (case generate p (snd w) of (r, w') \<Rightarrow> (r, (fst w @ [p], w')))"

definition prompts_sent :: "(prompt list \<times> 'w) state \<Rightarrow> prompt list" where
  "prompts_sent st = fst (world st)"

fun is_retry_prompt :: "prompt \<Rightarrow> bool" where
  "is_retry_prompt (RetryThinkPrompt query retryCount tools) = True"
| "is_retry_prompt p = False"

definition recording_agent :: "(string + string) list \<Rightarrow> decoder \<Rightarrow> (prompt list \<times> nat) Agent" where
  "recording_agent answers unmarshal =
     \<lparr>MaxIterations = 3, model = Some (recording (scripted answers)), toolManager = None,
      ragEngine = None, sseBroker = True, jsonUnmarshal = unmarshal,
      stringsToLower = asciiToLower, stringsFields = asciiFields\<rparr>"

definition recording_start :: "(prompt list \<times> nat) state" where
  "recording_start = \<lparr>world = ([], 0), broadcast = []\<rparr>"

text \<open>
  JSON texts of plans with several reason steps, and agents for the loop: the model of
  \<open>chain_agent\<close> answers with a plan of three steps, the second of which has
  \<open>should_continue = false\<close>; the model of \<open>echo_agent\<close> answers every think prompt
  with a one-step plan that continues and every reason step with \<open>echo\<close>. For the agents
  of the recovery examples the model fails at the reason step and then answers, or fails
  again, at the recovery prompt.
\<close>

definition bool_json :: "bool \<Rightarrow> string" where
  "bool_json b = (if b then ''true'' else ''false'')"

definition reason :: "string \<Rightarrow> bool \<Rightarrow> PlanStep" where
  "reason p c = \<lparr>Action = ''reason'', Parameters = Some [(''prompt'', JString p)], ShouldContinue = c\<rparr>"

definition reason_json :: "string \<Rightarrow> bool \<Rightarrow> string" where
  "reason_json p c =
     ''{'' @ quoted ''action'' @ '':'' @ quoted ''reason'' @ '','' @ quoted ''parameters'' @ '':{''
       @ quoted ''prompt'' @ '':'' @ quoted p @ ''},'' @ quoted ''should_continue'' @ '':''
       @ bool_json c @ ''}''"

fun comma_join :: "string list \<Rightarrow> string" where
  "comma_join [] = []"
| "comma_join [s] = s"
| "comma_join (s # t # rest) = s @ '','' @ comma_join (t # rest)"

definition plan_text :: "string \<Rightarrow> string list \<Rightarrow> string" where
  "plan_text thought steps =
     ''{'' @ quoted ''thought'' @ '':'' @ quoted thought @ '','' @ quoted ''steps'' @ '':[''
       @ comma_join steps @ '']}''"

definition chain_plan :: ExecutionPlan where
  "chain_plan =
     \<lparr>Thought = ''what is 2+2 doubled'',
      Steps = [Some (reason ''2+2'' True), Some (reason ''double it'' False),
               Some (reason ''never asked'' True)]\<rparr>"

definition chain_text :: string where
  "chain_text =
     plan_text ''what is 2+2 doubled''
       [reason_json ''2+2'' True, reason_json ''double it'' False, reason_json ''never asked'' True]"

definition chain_agent :: "nat Agent" where
  "chain_agent =
     demo_agent [Inr chain_text, Inr ''4'', Inr ''8'', Inr ''unused'']
       (decodes [(chain_text, chain_plan)])"

definition echo_plan :: ExecutionPlan where
  "echo_plan = \<lparr>Thought = ''echo'', Steps = [Some (reason ''say echo'' True)]\<rparr>"

definition echo_text :: string where
  "echo_text = plan_text ''echo'' [reason_json ''say echo'' True]"

definition echo_agent :: "nat Agent" where
  "echo_agent =
     demo_agent [Inr echo_text, Inr ''echo'', Inr echo_text, Inr ''echo'', Inr echo_text, Inr ''echo'']
       (decodes [(echo_text, echo_plan)])"

text \<open>The errors of a step that come from a backend (tool, retrieval engine, model): each
  has a recovery strategy of its own; every other error goes to the default recovery.\<close>

fun backend_failure :: "step_error \<Rightarrow> bool" where
  "backend_failure (ToolCallFailed toolName err) = True"
| "backend_failure (RagSearchFailed err) = True"
| "backend_failure (ReasonFailed err) = True"
| "backend_failure err = False"

definition recovering_agent :: "nat Agent" where
  "recovering_agent =
     demo_agent [Inr (plan_json ''what is 2+2''), Inl ''model down'', Inr ''about 4'']
       (decodes [(plan_json ''what is 2+2'', \<lparr>Thought = ''what is 2+2'', Steps = [Some reason_step]\<rparr>)])"

definition failing_agent :: "nat Agent" where
  "failing_agent =
     demo_agent [Inr (plan_json ''what is 2+2''), Inl ''model down'', Inl ''still down'']
       (decodes [(plan_json ''what is 2+2'', \<lparr>Thought = ''what is 2+2'', Steps = [Some reason_step]\<rparr>)])"

text \<open>
  Backends for the recovery examples (the world counts the calls of all backends): a tool
  that always fails, a tool that fails until the world has reached 2, and a retrieval
  engine that always fails; a tool step, a retrieval step and a step with an action the
  engine does not know; the text of the plan with the tool step; an agent whose model
  answers every think prompt with that plan and fails at every other prompt.
\<close>

definition broken_tools :: "nat ToolManager" where
  "broken_tools =
     \<lparr>ListTools = (\<lambda>w. [''web_search'']), ExecuteTool = (\<lambda>name input w. (Inl ''timeout'', w + 1))\<rparr>"

definition flaky_tools :: "nat ToolManager" where
  "flaky_tools =
     \<lparr>ListTools = (\<lambda>w. [''web_search'']),
      ExecuteTool = (\<lambda>name input w. (if w < 2 then Inl ''timeout'' else Inr (''found '' @ input), w + 1))\<rparr>"

definition broken_engine :: "nat RagEngine" where
  "broken_engine = \<lparr>Search = (\<lambda>query topK w. (Inl ''index offline'', w + 1))\<rparr>"

definition search_step :: PlanStep where
  "search_step =
     \<lparr>Action = ''search_tool'',
      Parameters = Some [(''tool_name'', JString ''web_search''), (''input'', JString ''weather'')],
      ShouldContinue = False\<rparr>"

definition lookup_step :: PlanStep where
  "lookup_step =
     \<lparr>Action = ''rag_search'', Parameters = Some [(''query'', JString ''weather in Paris'')],
      ShouldContinue = False\<rparr>"

definition dance_step :: PlanStep where
  "dance_step = \<lparr>Action = ''dance'', Parameters = Some [], ShouldContinue = False\<rparr>"

definition search_plan :: ExecutionPlan where
  "search_plan = \<lparr>Thought = ''search the weather'', Steps = [Some search_step]\<rparr>"

definition search_text :: string where
  "search_text =
     ''{'' @ quoted ''thought'' @ '':'' @ quoted ''search the weather'' @ '','' @ quoted ''steps''
       @ '':[{'' @ quoted ''action'' @ '':'' @ quoted ''search_tool'' @ '','' @ quoted ''parameters''
       @ '':{'' @ quoted ''tool_name'' @ '':'' @ quoted ''web_search'' @ '','' @ quoted ''input''
       @ '':'' @ quoted ''weather'' @ ''}}]}''"

fun thinking_only :: "string \<Rightarrow> prompt \<Rightarrow> nat \<Rightarrow> (string + string) \<times> nat" where
  "thinking_only answer (ThinkPrompt query iteration tools) w = (Inr answer, w + 1)"
| "thinking_only answer p w = (Inl ''model down'', w + 1)"

definition stubborn_agent :: "nat ToolManager \<Rightarrow> nat Agent" where
  "stubborn_agent tools =
     \<lparr>MaxIterations = 3, model = Some (thinking_only search_text), toolManager = Some tools,
      ragEngine = Some broken_engine, sseBroker = True,
      jsonUnmarshal = decodes [(search_text, search_plan)],
      stringsToLower = asciiToLower, stringsFields = asciiFields\<rparr>"
subsection \<open>Subscribers of the broker\<close>

text \<open>
  A client is connected while neither of its channels is closed. \<open>deliver c bytes\<close> is the
  client after a send that finds it connected: the bytes are queued if the queue has room.
  \<open>received s a\<close> is everything that has entered the queue of the client at address \<open>a\<close>,
  in the order in which the subscriber reads it: what \<open>Subscribe\<close> has written, followed
  by what waits in the queue. \<open>published\<close> are the events the \<open>Publish\<close> steps of a schedule
  hand to \<open>Broadcast\<close>, in order, and \<open>wire\<close> is the wire format of those that can be
  serialized. A schedule is orderly if every \<open>Dispatch\<close> in it finds that all the send
  goroutines of the earlier events have run.
\<close>

definition connected :: "Client \<Rightarrow> bool" where
  "connected c = (\<not> done_closed c \<and> \<not> events_closed c)"

definition deliver :: "Client \<Rightarrow> string \<Rightarrow> Client" where
  "deliver c bytes = (if length (events c) < 100 then c\<lparr>events := events c @ [bytes]\<rparr> else c)"

definition received :: "System \<Rightarrow> nat \<Rightarrow> string list" where
  "received s a = streams s ! a @ events (heap s ! a)"

fun published :: "operation list \<Rightarrow> Event list" where
  "published [] = []"
| "published (Publish now eventType data # operations) =
     \<lparr>sseID = now, sseEvent = eventType, sseData = data, sseRetry = 5000\<rparr> # published operations"
| "published (operation # operations) = published operations"

definition wire :: "Event list \<Rightarrow> string list" where
  "wire evs = List.map_filter serializeEvent evs"

fun orderly :: "operation list \<Rightarrow> System \<Rightarrow> bool" where
  "orderly [] s = True"
| "orderly (operation # operations) s =
     ((operation = Dispatch \<longrightarrow> tasks s = []) \<and> orderly operations (exec operation s))"

text \<open>
  The invariant of the orderly schedules, for the events \<open>dispatched\<close> that the loop of
  \<open>run\<close> has taken from its channel so far and the events \<open>handed\<close> to \<open>Broadcast\<close> so
  far: every client has its stream; the send goroutines and the map point to clients of
  the heap, the map to each at most once; the events taken and those that wait in the
  channel were handed over in this order; what a client has received, followed by what
  the send goroutines still hold for it (\<open>pending\<close>, at most one event), is in the order in
  which the events were taken.
\<close>

definition pending :: "System \<Rightarrow> nat \<Rightarrow> string list" where
  "pending s a = map snd (filter (\<lambda>(a', bytes). a' = a) (tasks s))"

definition orderly_inv :: "System \<Rightarrow> Event list \<Rightarrow> Event list \<Rightarrow> bool" where
  "orderly_inv s dispatched handed =
     (length (streams s) = length (heap s)
      \<and> (\<forall>(a, bytes) \<in> set (tasks s). a < length (heap s))
      \<and> (\<forall>(k, a) \<in> set (clients s). a < length (heap s))
      \<and> distinct (map snd (clients s))
      \<and> subseq (dispatched @ inbox s) handed
      \<and> (\<forall>a < length (heap s). subseq (received s a @ pending s a) (wire dispatched))
      \<and> (\<forall>a. length (pending s a) \<le> 1))"

text \<open>
  Examples. In \<open>crowded\<close> two clients are registered: the queue of the first is full, the
  queue of the second is empty. In the schedule \<open>overtaking\<close> one client subscribes, two
  events are published and dispatched, the send goroutine of the second event runs before
  the one of the first, and the subscriber writes both. The data of the events are the
  JSON texts of numbers.
\<close>

definition crowded :: System where
  "crowded =
     \<lparr>heap = [\<lparr>ClientID = ''slow'', events = replicate 100 ''old'', done_closed = False,
                events_closed = False\<rparr>,
              \<lparr>ClientID = ''fast'', events = [], done_closed = False, events_closed = False\<rparr>],
      clients = [(''slow'', 0), (''fast'', 1)], inbox = [], tasks = [], streams = [[], []],
      stopped = False, panicked = False\<rparr>"

definition overtaking :: "operation list" where
  "overtaking =
     [Register ''observer'', Publish ''1001'' ''agent'' (Some ''1''),
      Publish ''1002'' ''agent'' (Some ''2''), Dispatch, Dispatch,
      Fire 1 True, Fire 0 True, Write 0, Write 0]"

text \<open>The same events in an orderly schedule, in two parts: after the first part the
  subscriber's queue holds the first event.\<close>

definition in_turn_start :: "operation list" where
  "in_turn_start =
     [Register ''observer'', Publish ''1001'' ''agent'' (Some ''1''),
      Publish ''1002'' ''agent'' (Some ''2''), Dispatch, Fire 0 True]"

definition in_turn_rest :: "operation list" where
  "in_turn_rest = [Dispatch, Fire 0 True, Write 0, Write 0]"

text \<open>The wire format of an agent event with the given id and JSON data.\<close>

definition agent_bytes :: "string \<Rightarrow> string \<Rightarrow> string" where
  "agent_bytes now json =
     ''id: '' @ now @ [newline] @ ''event: agent'' @ [newline] @ ''data: '' @ json @ [newline]
       @ ''retry: 5000'' @ [newline, newline]"

section \<open>Properties\<close>

subsection \<open>The run loop\<close>

lemma world_sendEvent [simp]: "world (sendEvent a eid status data st) = world st"
  by (simp add: sendEvent_def)

lemma availableTools_sendEvent [simp]:
  "availableTools a (sendEvent a eid status data st) = availableTools a st"
  by (simp add: availableTools_def split: option.split)

lemma Generate_no_model: "model a = None \<Longrightarrow> Generate a p st = (Panic, st)"
  by (simp add: Generate_def)

lemma think_no_model: "model a = None \<Longrightarrow> fst (think a query iteration st) = Panic"
  by (simp add: think_def Generate_no_model)

lemma loop_budget:
  "\<not> iteration < MaxIterations a \<Longrightarrow>
   thinkExecuteLoop_from a iteration query st
     = (Err (IterationBudgetExceeded (MaxIterations a)), st)"
  by (subst thinkExecuteLoop_from.simps) simp

lemma loop_think_fails:
  "iteration < MaxIterations a \<Longrightarrow>
   think a query (iteration + 1) (sendEvent a (EvThink (iteration + 1)) StatusThinking NoData st)
     = (Err err, st1) \<Longrightarrow>
   thinkExecuteLoop_from a iteration query st = (Err (ThinkStageFailed err), st1)"
  by (subst thinkExecuteLoop_from.simps) simp

lemma loop_execute_fails:
  "iteration < MaxIterations a \<Longrightarrow>
   think a query (iteration + 1) (sendEvent a (EvThink (iteration + 1)) StatusThinking NoData st)
     = (Ok plan, st1) \<Longrightarrow>
   execute a plan
     (sendEvent a (EvExecute (iteration + 1)) StatusExecuting (PlanData plan)
        (sendEvent a (EvPlan (iteration + 1)) StatusPlanning (PlanData plan) st1))
     = (Err err, st2) \<Longrightarrow>
   thinkExecuteLoop_from a iteration query st = (Err (ExecuteStageFailed err), st2)"
  by (subst thinkExecuteLoop_from.simps) simp

lemma loop_stops:
  "iteration < MaxIterations a \<Longrightarrow>
   think a query (iteration + 1) (sendEvent a (EvThink (iteration + 1)) StatusThinking NoData st)
     = (Ok plan, st1) \<Longrightarrow>
   execute a plan
     (sendEvent a (EvExecute (iteration + 1)) StatusExecuting (PlanData plan)
        (sendEvent a (EvPlan (iteration + 1)) StatusPlanning (PlanData plan) st1))
     = (Ok (result, False), st2) \<Longrightarrow>
   thinkExecuteLoop_from a iteration query st = (Ok result, st2)"
  by (subst thinkExecuteLoop_from.simps) simp

lemma loop_after_passes:
  "continuing_passes a k iteration query st = Some (query', st') \<Longrightarrow>
   thinkExecuteLoop_from a iteration query st
     = thinkExecuteLoop_from a (iteration + int k) query' st'"
proof (induction k arbitrary: iteration query st)
  case 0
  then show ?case by simp
next
  case (Suc k)
  from Suc.prems have lt: "iteration < MaxIterations a"
    by (simp split: if_splits)
  from Suc.prems lt obtain plan st1 where
    th: "think a query (iteration + 1)
           (sendEvent a (EvThink (iteration + 1)) StatusThinking NoData st) = (Ok plan, st1)"
    by (auto split: prod.splits outcome.splits)
  from Suc.prems lt th obtain result st2 where
    ex: "execute a plan
           (sendEvent a (EvExecute (iteration + 1)) StatusExecuting (PlanData plan)
              (sendEvent a (EvPlan (iteration + 1)) StatusPlanning (PlanData plan) st1))
           = (Ok (result, True), st2)"
    and rest: "continuing_passes a k (iteration + 1) result st2 = Some (query', st')"
    by (auto split: prod.splits outcome.splits if_splits)
  have "thinkExecuteLoop_from a iteration query st
          = thinkExecuteLoop_from a (iteration + 1) result st2"
    using lt th ex by (subst thinkExecuteLoop_from.simps) simp
  also have "\<dots> = thinkExecuteLoop_from a (iteration + 1 + int k) query' st'"
    by (rule Suc.IH [OF rest])
  finally show ?case by (simp add: ac_simps)
qed

lemma passes_need_model:
  "continuing_passes a (Suc k) iteration query st = Some x \<Longrightarrow> model a \<noteq> None"
proof
  assume p: "continuing_passes a (Suc k) iteration query st = Some x" and n: "model a = None"
  let ?t = "think a query (iteration + 1)
              (sendEvent a (EvThink (iteration + 1)) StatusThinking NoData st)"
  from n have "fst ?t = Panic" by (rule think_no_model)
  then obtain st1 where "?t = (Panic, st1)" by (cases ?t) auto
  with p show False by (simp split: if_splits)
qed

lemma Execute_Err:
  "model a \<noteq> None \<Longrightarrow>
   thinkExecuteLoop_from a 0 query (sendEvent a EvStart StatusThinking NoData st) = (Err err, st1) \<Longrightarrow>
   Execute a query st = (Err err, sendEvent a EvError StatusError NoData st1)"
  by (auto simp add: Execute_def thinkExecuteLoop_def)

lemma Execute_Ok:
  "model a \<noteq> None \<Longrightarrow>
   thinkExecuteLoop_from a 0 query (sendEvent a EvStart StatusThinking NoData st) = (Ok result, st1) \<Longrightarrow>
   Execute a query st = (Ok result, sendEvent a EvComplete StatusCompleted (ResultData result) st1)"
  by (auto simp add: Execute_def thinkExecuteLoop_def)

lemma think_Ok_model: "think a query iteration st = (Ok plan, st1) \<Longrightarrow> model a \<noteq> None"
  using think_no_model [of a query iteration st] by auto

lemma think_Err_model: "think a query iteration st = (Err err, st1) \<Longrightarrow> model a \<noteq> None"
  using think_no_model [of a query iteration st] by auto

lemma Execute_think_fails:
  assumes passes: "continuing_passes a k 0 query (sendEvent a EvStart StatusThinking NoData st)
                     = Some (query', st1)"
    and budget: "int k < MaxIterations a"
    and fails: "think a query' (int k + 1)
                  (sendEvent a (EvThink (int k + 1)) StatusThinking NoData st1) = (Err err, st2)"
  shows "Execute a query st = (Err (ThinkStageFailed err), sendEvent a EvError StatusError NoData st2)"
proof -
  have "thinkExecuteLoop_from a 0 query (sendEvent a EvStart StatusThinking NoData st)
          = thinkExecuteLoop_from a (int k) query' st1"
    using loop_after_passes [OF passes] by simp
  also have "\<dots> = (Err (ThinkStageFailed err), st2)"
    using budget fails by (rule loop_think_fails)
  finally show ?thesis using think_Err_model [OF fails] by (simp add: Execute_Err)
qed

lemma execute_loop_truncate:
  "list_all ShouldContinue pre \<Longrightarrow> \<not> ShouldContinue step \<Longrightarrow>
   i + length pre < n \<Longrightarrow> i + length pre < n' \<Longrightarrow>
   execute_loop a n i (map Some pre @ Some step # post) result c history st
     = execute_loop a n' i (map Some pre @ [Some step]) result c history st"
proof (induction pre arbitrary: i result c history st)
  case Nil
  then show ?case by (simp add: Let_def split: prod.split outcome.split)
next
  case (Cons p pre)
  from Cons.prems have p: "ShouldContinue p" and pre: "list_all ShouldContinue pre"
    and n: "int i < int n - 1" and n': "int i < int n' - 1"
    and b: "(i + 1) + length pre < n" and b': "(i + 1) + length pre < n'"
    by auto
  show ?case
    using p n n' Cons.IH [OF pre Cons.prems(2) b b']
    by (simp add: Let_def split: prod.split outcome.split)
qed

lemma execute_truncate:
  assumes "list_all ShouldContinue pre" and "\<not> ShouldContinue step"
  shows "execute a \<lparr>Thought = thought, Steps = map Some pre @ Some step # post\<rparr> st
           = execute a \<lparr>Thought = thought, Steps = map Some pre @ [Some step]\<rparr> st"
  using assms
    execute_loop_truncate [of pre step 0 "length (map Some pre @ Some step # post)"
      "length (map Some pre @ [Some step])" a post "[]" False "[]" st]
  by (simp add: execute_def)

lemma execute_loop_stop:
  "\<not> ShouldContinue step \<Longrightarrow>
   execute_loop a n i (Some step # post) result c history st =
     (case attempt_step a i step history
             (sendEvent a (EvStepStart (i + 1)) StatusExecuting (StepData step) st) of
        (Ok stepResult, st1) \<Rightarrow>
          (Ok (stepResult, False),
           sendEvent a (EvStepComplete (i + 1)) StatusExecuting (StepResultData stepResult False) st1)
      | (Err err, st1) \<Rightarrow> (Err err, st1)
      | (Panic, st1) \<Rightarrow> (Panic, st1))"
  by (simp add: Let_def split: prod.split outcome.split)

lemma Execute_stops:
  assumes passes: "continuing_passes a k 0 query (sendEvent a EvStart StatusThinking NoData st)
                     = Some (query', st1)"
    and budget: "int k < MaxIterations a"
    and plan: "think a query' (int k + 1)
                 (sendEvent a (EvThink (int k + 1)) StatusThinking NoData st1) = (Ok plan, st2)"
    and stop: "execute a plan
                 (sendEvent a (EvExecute (int k + 1)) StatusExecuting (PlanData plan)
                    (sendEvent a (EvPlan (int k + 1)) StatusPlanning (PlanData plan) st2))
                 = (Ok (result, False), st3)"
  shows "Execute a query st
           = (Ok result, sendEvent a EvComplete StatusCompleted (ResultData result) st3)"
proof -
  have "thinkExecuteLoop_from a 0 query (sendEvent a EvStart StatusThinking NoData st)
          = thinkExecuteLoop_from a (int k) query' st1"
    using loop_after_passes [OF passes] by simp
  also have "\<dots> = (Ok result, st3)"
    using budget plan stop by (rule loop_stops)
  finally show ?thesis using think_Ok_model [OF plan] by (simp add: Execute_Ok)
qed

lemma Execute_execute_fails:
  assumes passes: "continuing_passes a k 0 query (sendEvent a EvStart StatusThinking NoData st)
                     = Some (query', st1)"
    and budget: "int k < MaxIterations a"
    and plan: "think a query' (int k + 1)
                 (sendEvent a (EvThink (int k + 1)) StatusThinking NoData st1) = (Ok plan, st2)"
    and fails: "execute a plan
                 (sendEvent a (EvExecute (int k + 1)) StatusExecuting (PlanData plan)
                    (sendEvent a (EvPlan (int k + 1)) StatusPlanning (PlanData plan) st2))
                 = (Err err, st3)"
  shows "Execute a query st
           = (Err (ExecuteStageFailed err), sendEvent a EvError StatusError NoData st3)"
proof -
  have "thinkExecuteLoop_from a 0 query (sendEvent a EvStart StatusThinking NoData st)
          = thinkExecuteLoop_from a (int k) query' st1"
    using loop_after_passes [OF passes] by simp
  also have "\<dots> = (Err (ExecuteStageFailed err), st3)"
    using budget plan fails by (rule loop_execute_fails)
  finally show ?thesis using think_Ok_model [OF plan] by (simp add: Execute_Err)
qed

lemma Execute_budget:
  assumes positive: "0 < MaxIterations a"
    and passes: "continuing_passes a (nat (MaxIterations a)) 0 query
                   (sendEvent a EvStart StatusThinking NoData st) = Some (query', st1)"
  shows "Execute a query st
           = (Err (IterationBudgetExceeded (MaxIterations a)),
              sendEvent a EvError StatusError NoData st1)"
proof -
  from positive obtain k where k: "nat (MaxIterations a) = Suc k"
    by (cases "nat (MaxIterations a)") auto
  with passes have m: "model a \<noteq> None" using passes_need_model [of a k] by auto
  have "thinkExecuteLoop_from a 0 query (sendEvent a EvStart StatusThinking NoData st)
          = thinkExecuteLoop_from a (0 + int (nat (MaxIterations a))) query' st1"
    by (rule loop_after_passes [OF passes])
  also have "\<dots> = (Err (IterationBudgetExceeded (MaxIterations a)), st1)"
    using positive by (simp add: loop_budget)
  finally show ?thesis using m by (simp add: Execute_Err)
qed


subsection \<open>Retries of the think phase\<close>

lemma prompts_sent_sendEvent [simp]:
  "prompts_sent (sendEvent a eid status data st) = prompts_sent st"
  by (simp add: prompts_sent_def)

lemma Generate_recording:
  "model a = Some (recording generate) \<Longrightarrow>
   prompts_sent (snd (Generate a p st)) = prompts_sent st @ [p]"
  by (simp add: Generate_def recording_def prompts_sent_def split: prod.split sum.split)

lemma retry_recording:
  "model a = Some (recording generate) \<Longrightarrow>
   prompts_sent (snd (thinkWithRetryInternal a query retryCount st))
     = prompts_sent st @ [buildRetryThinkPrompt a query retryCount st]"
proof -
  assume m: "model a = Some (recording generate)"
  let ?p = "buildRetryThinkPrompt a query retryCount st"
  obtain r st1 where g: "Generate a ?p st = (r, st1)" by (cases "Generate a ?p st")
  with Generate_recording [OF m, of ?p st] have s: "prompts_sent st1 = prompts_sent st @ [?p]"
    by simp
  have "snd (thinkWithRetryInternal a query retryCount st) = st1"
    using g by (simp add: thinkWithRetryInternal_def split: outcome.split)
  with s show ?thesis by simp
qed

lemma think_recording:
  assumes m: "model a = Some (recording generate)"
  shows "\<exists>retries.
           prompts_sent (snd (think a query iteration st))
             = prompts_sent st @ buildThinkPrompt a query iteration st # retries
           \<and> length retries \<le> 3 \<and> list_all is_retry_prompt retries
           \<and> ((\<exists>e. fst (think a query iteration st) = Err (PlanCheckFailed e)) \<longrightarrow> retries = [])"
proof -
  let ?p = "buildThinkPrompt a query iteration st"
  let ?t = "think a query iteration st"
  obtain r st1 where g: "Generate a ?p st = (r, st1)" by (cases "Generate a ?p st")
  with Generate_recording [OF m, of ?p st] have s: "prompts_sent st1 = prompts_sent st @ [?p]"
    by simp
  let ?again = "thinkWithRetryInternal a query (iteration + 1) st1"
  have again: "prompts_sent (snd ?again)
                 = prompts_sent st @ ?p # [buildRetryThinkPrompt a query (iteration + 1) st1]"
    using retry_recording [OF m, of query "iteration + 1" st1] s by simp
  have no_check: "fst ?again \<noteq> Err (PlanCheckFailed e)" for e
    by (simp add: thinkWithRetryInternal_def split: prod.split outcome.split)
  have "?t = ?again \<or> snd ?t = st1"
    unfolding think_def g by (simp split: outcome.split)
  then consider (retry) "?t = ?again" | (once) "snd ?t = st1"
    by blast
  then show ?thesis
  proof cases
    case retry
    have "prompts_sent (snd ?t) = prompts_sent st @ ?p # [buildRetryThinkPrompt a query (iteration + 1) st1]
          \<and> length [buildRetryThinkPrompt a query (iteration + 1) st1] \<le> 3
          \<and> list_all is_retry_prompt [buildRetryThinkPrompt a query (iteration + 1) st1]
          \<and> ((\<exists>e. fst ?t = Err (PlanCheckFailed e))
                \<longrightarrow> [buildRetryThinkPrompt a query (iteration + 1) st1] = [])"
      using retry again no_check by (simp add: buildRetryThinkPrompt_def)
    then show ?thesis by blast
  next
    case once
    have "prompts_sent (snd ?t) = prompts_sent st @ ?p # []
          \<and> length ([] :: prompt list) \<le> 3 \<and> list_all is_retry_prompt []
          \<and> ((\<exists>e. fst ?t = Err (PlanCheckFailed e)) \<longrightarrow> ([] :: prompt list) = [])"
      using once s by simp
    then show ?thesis by blast
  qed
qed

text \<open>
  C1, as stated, fails. The plan of \<open>retry_agent\<close>'s model is rejected by the relevance
  gate: \<open>think\<close> returns the error after that one model call (the world counts the
  calls) and the run ends, although the model would have answered a retry with an
  acceptable plan. The first answer of \<open>prose_agent\<close>'s model cannot be parsed: it is
  retried once, the second answer cannot be parsed either, and the error is returned
  after two calls, although the third answer would have been a plan.
\<close>

theorem think_retries_less_than_three_times:
  "think retry_agent ''2+2 is what?'' 1 start_state
     = (Err (PlanCheckFailed PlanNotRelevant), \<lparr>world = 1, broadcast = []\<rparr>)
   \<and> fst (Execute retry_agent ''2+2 is what?'' start_state)
       = Err (ThinkStageFailed (PlanCheckFailed PlanNotRelevant))
   \<and> world (snd (Execute retry_agent ''2+2 is what?'' start_state)) = 1
   \<and> think prose_agent ''2+2 is what?'' 1 start_state
       = (Err (RetryParseFailed (NoJSONFound ''invalid character'')), \<lparr>world = 2, broadcast = []\<rparr>)
   \<and> fst (Execute prose_agent ''2+2 is what?'' start_state)
       = Err (ThinkStageFailed (RetryParseFailed (NoJSONFound ''invalid character'')))
   \<and> world (snd (Execute prose_agent ''2+2 is what?'' start_state)) = 2"
  by code_simp

text \<open>
  C1 (amended): when the model's answer parses to a plan that the semantic validation
  rejects (the relevance gate included), \<open>think\<close> returns that error at once, in the state
  after the one model call: a rejection by the semantic validation is not retried (first
  part). Whatever the answers of the model, \<open>think\<close> sends the think prompt and after it
  retry prompts only, at most three of them, and none when it returns an error of the
  semantic validation (second part, for a model that records its prompts). An error of
  the think phase in any pass ends the run: \<open>Execute\<close> returns it as the error of the
  think stage, in the state the think phase left (third part).
\<close>

theorem think_retry_rule:
  "(Generate a (buildThinkPrompt a query iteration st) st = (Ok response, st1)
      \<and> ParseExecutionPlan (jsonUnmarshal a) response = Ok plan
      \<and> Agent_validatePlan a plan query st1 = Err err
    \<longrightarrow> think a query iteration st = (Err (PlanCheckFailed err), st1))
   \<and> (model b = Some (recording generate)
    \<longrightarrow> (\<exists>retries.
           prompts_sent (snd (think b query iteration sb))
             = prompts_sent sb @ buildThinkPrompt b query iteration sb # retries
           \<and> length retries \<le> 3 \<and> list_all is_retry_prompt retries
           \<and> ((\<exists>e. fst (think b query iteration sb) = Err (PlanCheckFailed e)) \<longrightarrow> retries = [])))
   \<and> (continuing_passes a k 0 goal (sendEvent a EvStart StatusThinking NoData st0) = Some (query', st2)
      \<and> int k < MaxIterations a
      \<and> think a query' (int k + 1) (sendEvent a (EvThink (int k + 1)) StatusThinking NoData st2)
          = (Err terr, st3)
    \<longrightarrow> Execute a goal st0
          = (Err (ThinkStageFailed terr), sendEvent a EvError StatusError NoData st3))"
proof (intro conjI impI)
  assume "Generate a (buildThinkPrompt a query iteration st) st = (Ok response, st1)
      \<and> ParseExecutionPlan (jsonUnmarshal a) response = Ok plan
      \<and> Agent_validatePlan a plan query st1 = Err err"
  then show "think a query iteration st = (Err (PlanCheckFailed err), st1)"
    by (simp add: think_def)
next
  assume "model b = Some (recording generate)"
  then show "\<exists>retries.
           prompts_sent (snd (think b query iteration sb))
             = prompts_sent sb @ buildThinkPrompt b query iteration sb # retries
           \<and> length retries \<le> 3 \<and> list_all is_retry_prompt retries
           \<and> ((\<exists>e. fst (think b query iteration sb) = Err (PlanCheckFailed e)) \<longrightarrow> retries = [])"
    by (rule think_recording)
next
  assume "continuing_passes a k 0 goal (sendEvent a EvStart StatusThinking NoData st0) = Some (query', st2)
      \<and> int k < MaxIterations a
      \<and> think a query' (int k + 1) (sendEvent a (EvThink (int k + 1)) StatusThinking NoData st2)
          = (Err terr, st3)"
  then show "Execute a goal st0
          = (Err (ThinkStageFailed terr), sendEvent a EvError StatusError NoData st3)"
    by (intro Execute_think_fails [of a k goal st0 query' st2]) simp_all
qed

text \<open>The theorem at a relevance rejection, at a model that records its prompts and
  answers with prose, and at a run that the rejection ends.\<close>

theorem think_retry_rule_witness:
  "think retry_agent ''2+2 is what?'' 1 start_state
     = (Err (PlanCheckFailed PlanNotRelevant), \<lparr>world = 1, broadcast = []\<rparr>)
   \<and> (\<exists>retries.
         prompts_sent (snd (think (recording_agent prose_answers (decodes [])) ''2+2 is what?'' 1
                              recording_start))
           = ThinkPrompt ''2+2 is what?'' 1 [] # retries
         \<and> length retries \<le> 3 \<and> list_all is_retry_prompt retries)
   \<and> fst (Execute retry_agent ''2+2 is what?'' start_state)
       = Err (ThinkStageFailed (PlanCheckFailed PlanNotRelevant))"
proof -
  let ?q = "''2+2 is what?''"
  let ?s1 = "\<lparr>world = 1, broadcast = []\<rparr> :: nat state"
  let ?plan = "\<lparr>Thought = ''solve arithmetic'', Steps = [Some reason_step]\<rparr>"
  have g1: "Generate retry_agent (buildThinkPrompt retry_agent ?q 1 start_state) start_state
              = (Ok (plan_json ''solve arithmetic''), ?s1)"
    by code_simp
  have p1: "ParseExecutionPlan (jsonUnmarshal retry_agent) (plan_json ''solve arithmetic'') = Ok ?plan"
    by code_simp
  have v1: "Agent_validatePlan retry_agent ?plan ?q ?s1 = Err PlanNotRelevant"
    by code_simp
  have 1: "think retry_agent ?q 1 start_state = (Err (PlanCheckFailed PlanNotRelevant), ?s1)"
    using think_retry_rule [where a = retry_agent and query = ?q and iteration = 1
        and st = start_state and response = "plan_json ''solve arithmetic''" and ?st1.0 = ?s1
        and plan = ?plan and err = PlanNotRelevant] g1 p1 v1 by blast
  let ?b = "recording_agent prose_answers (decodes [])"
  have m: "model ?b = Some (recording (scripted prose_answers))"
    by (simp add: recording_agent_def)
  have s: "prompts_sent recording_start = []"
    by (simp add: prompts_sent_def recording_start_def)
  have p: "buildThinkPrompt ?b ?q 1 recording_start = ThinkPrompt ?q 1 []"
    by (simp add: buildThinkPrompt_def availableTools_def recording_agent_def)
  from think_retry_rule [where b = ?b and generate = "scripted prose_answers" and query = ?q
        and iteration = 1 and sb = recording_start, THEN conjunct2, THEN conjunct1] m
  obtain retries where
    r: "prompts_sent (snd (think ?b ?q 1 recording_start))
          = prompts_sent recording_start @ buildThinkPrompt ?b ?q 1 recording_start # retries"
      "length retries \<le> 3" "list_all is_retry_prompt retries"
    by blast
  from r s p have 2: "\<exists>retries.
         prompts_sent (snd (think ?b ?q 1 recording_start)) = ThinkPrompt ?q 1 [] # retries
         \<and> length retries \<le> 3 \<and> list_all is_retry_prompt retries"
    by auto
  have c: "continuing_passes retry_agent 0 0 ?q
             (sendEvent retry_agent EvStart StatusThinking NoData start_state)
             = Some (?q, sendEvent retry_agent EvStart StatusThinking NoData start_state)"
    by simp
  have b: "int 0 < MaxIterations retry_agent" by (simp add: retry_agent_def demo_agent_def)
  have t: "think retry_agent ?q (int 0 + 1)
             (sendEvent retry_agent (EvThink (int 0 + 1)) StatusThinking NoData
                (sendEvent retry_agent EvStart StatusThinking NoData start_state))
             = (Err (PlanCheckFailed PlanNotRelevant),
                \<lparr>world = 1,
                 broadcast = [\<lparr>ID = EvStart, Status = StatusThinking, Data = NoData\<rparr>,
                              \<lparr>ID = EvThink 1, Status = StatusThinking, Data = NoData\<rparr>]\<rparr>)"
    by code_simp
  have 3: "fst (Execute retry_agent ?q start_state)
             = Err (ThinkStageFailed (PlanCheckFailed PlanNotRelevant))"
    using think_retry_rule [where a = retry_agent and k = 0 and goal = ?q
        and ?st0.0 = start_state and query' = ?q
        and ?st2.0 = "sendEvent retry_agent EvStart StatusThinking NoData start_state"
        and terr = "PlanCheckFailed PlanNotRelevant"
        and ?st3.0 = "\<lparr>world = 1,
                 broadcast = [\<lparr>ID = EvStart, Status = StatusThinking, Data = NoData\<rparr>,
                              \<lparr>ID = EvThink 1, Status = StatusThinking, Data = NoData\<rparr>]\<rparr>",
        THEN conjunct2, THEN conjunct2] c b t by simp
  from 1 2 3 show ?thesis by simp
qed

subsection \<open>The relevance gate\<close>

lemma count_matches_filter:
  "count_matches t ws k = k + length (filter (\<lambda>w. length w > 2 \<and> Contains t w) ws)"
  by (induction ws arbitrary: k) simp_all

lemma matching_words_count:
  "length (matching_words a plan query)
     = count_matches (stringsToLower a (Thought plan)) (query_words a query) 0"
  by (simp add: count_matches_filter matching_words_def significant_words_def Contains_def
        conj_commute)

lemma isPlanRelevant_iff:
  "isPlanRelevant a plan query \<longleftrightarrow>
     query_words a query \<noteq> []
     \<and> 3 * length (query_words a query) \<le> 10 * length (matching_words a plan query)"
proof -
  have "isPlanRelevant a plan query
          = ratio_at_least_03 (length (matching_words a plan query)) (length (query_words a query))"
    by (simp add: isPlanRelevant_def Let_def matching_words_count query_words_def)
  also have "\<dots> \<longleftrightarrow> query_words a query \<noteq> []
     \<and> 3 * length (query_words a query) \<le> 10 * length (matching_words a plan query)"
  proof (cases "query_words a query")
    case Nil
    then show ?thesis
      by (simp add: ratio_at_least_03_def matching_words_def significant_words_def)
  next
    case (Cons w ws)
    then show ?thesis by (simp add: ratio_at_least_03_def)
  qed
  finally show ?thesis .
qed

text \<open>
  C2, as stated, fails: the query \<open>to be or not\<close> has one significant word, \<open>not\<close>, and
  the thought \<open>why not\<close> contains it (all of the significant words match), but the plan is
  rejected, since the code divides by the number of all four words of the query.
\<close>

theorem isPlanRelevant_divides_by_all_words:
  "significant_words ascii_agent ''to be or not'' = [''not'']
   \<and> matching_words ascii_agent \<lparr>Thought = ''why not'', Steps = []\<rparr> ''to be or not'' = [''not'']
   \<and> \<not> isPlanRelevant ascii_agent \<lparr>Thought = ''why not'', Steps = []\<rparr> ''to be or not''"
  by code_simp

text \<open>
  C2 (amended): whatever \<open>strings.ToLower\<close> and \<open>strings.Fields\<close> compute, the relevance
  gate accepts a plan iff the lower-case query has at least one word and the number of its
  words of more than two bytes that occur in the lower-case thought is at least 30% of the
  number of all words of the lower-case query, short words included (exactly 30% is
  accepted). In particular a thought that contains none of the significant words is
  rejected, for every query; and for a query without short words the gate accepts iff the
  query has a word and at least 30% of the significant words occur in the thought.
\<close>

theorem isPlanRelevant_ratio:
  "(isPlanRelevant a plan query \<longleftrightarrow>
      query_words a query \<noteq> []
      \<and> 3 * length (query_words a query) \<le> 10 * length (matching_words a plan query))
   \<and> (matching_words a plan query = [] \<longrightarrow> \<not> isPlanRelevant a plan query)
   \<and> (list_all (\<lambda>w. length w > 2) (query_words a query) \<longrightarrow>
        (isPlanRelevant a plan query \<longleftrightarrow>
           significant_words a query \<noteq> []
           \<and> 3 * length (significant_words a query) \<le> 10 * length (matching_words a plan query)))"
proof (intro conjI impI)
  show "isPlanRelevant a plan query \<longleftrightarrow>
      query_words a query \<noteq> []
      \<and> 3 * length (query_words a query) \<le> 10 * length (matching_words a plan query)"
    by (rule isPlanRelevant_iff)
next
  assume "matching_words a plan query = []"
  then show "\<not> isPlanRelevant a plan query"
    by (cases "query_words a query") (simp_all add: isPlanRelevant_iff)
next
  assume "list_all (\<lambda>w. length w > 2) (query_words a query)"
  then have "significant_words a query = query_words a query"
    by (simp add: significant_words_def list_all_iff)
  then show "isPlanRelevant a plan query \<longleftrightarrow>
           significant_words a query \<noteq> []
           \<and> 3 * length (significant_words a query) \<le> 10 * length (matching_words a plan query)"
    by (simp add: isPlanRelevant_iff)
qed

text \<open>The theorem at a query of ten words of which exactly three occur in the thought,
  at a thought that contains no word of the query, and at a query of three long words of
  which one occurs in the thought.\<close>

theorem isPlanRelevant_ratio_witness:
  "length (query_words ascii_agent ''Alpha  BETA gamma dd ee ff gg hh ii jj'') = 10
   \<and> matching_words ascii_agent \<lparr>Thought = ''Gamma, beta and alpha'', Steps = []\<rparr>
        ''Alpha  BETA gamma dd ee ff gg hh ii jj'' = [''alpha'', ''beta'', ''gamma'']
   \<and> isPlanRelevant ascii_agent \<lparr>Thought = ''Gamma, beta and alpha'', Steps = []\<rparr>
        ''Alpha  BETA gamma dd ee ff gg hh ii jj''
   \<and> matching_words ascii_agent \<lparr>Thought = ''solve arithmetic'', Steps = []\<rparr> ''2+2 is what?'' = []
   \<and> \<not> isPlanRelevant ascii_agent \<lparr>Thought = ''solve arithmetic'', Steps = []\<rparr> ''2+2 is what?''
   \<and> list_all (\<lambda>w. length w > 2) (query_words ascii_agent ''weather Paris tomorrow'')
   \<and> matching_words ascii_agent \<lparr>Thought = ''look up Paris'', Steps = []\<rparr>
        ''weather Paris tomorrow'' = [''paris'']
   \<and> isPlanRelevant ascii_agent \<lparr>Thought = ''look up Paris'', Steps = []\<rparr> ''weather Paris tomorrow''"
proof -
  let ?q = "''Alpha  BETA gamma dd ee ff gg hh ii jj''"
  let ?p = "\<lparr>Thought = ''Gamma, beta and alpha'', Steps = []\<rparr>"
  let ?s = "\<lparr>Thought = ''solve arithmetic'', Steps = []\<rparr>"
  let ?l = "\<lparr>Thought = ''look up Paris'', Steps = []\<rparr>"
  have f: "query_words ascii_agent ?q
             = [''alpha'', ''beta'', ''gamma'', ''dd'', ''ee'', ''ff'', ''gg'', ''hh'', ''ii'', ''jj'']"
    by code_simp
  have m: "matching_words ascii_agent ?p ?q = [''alpha'', ''beta'', ''gamma'']"
    by code_simp
  have n: "matching_words ascii_agent ?s ''2+2 is what?'' = []"
    by code_simp
  have w: "query_words ascii_agent ''weather Paris tomorrow'' = [''weather'', ''paris'', ''tomorrow'']"
    by code_simp
  have g: "significant_words ascii_agent ''weather Paris tomorrow'' = [''weather'', ''paris'', ''tomorrow'']"
    by code_simp
  have 1: "isPlanRelevant ascii_agent ?p ?q"
    using isPlanRelevant_ratio [of ascii_agent ?p ?q] by (simp add: f m)
  have 2: "\<not> isPlanRelevant ascii_agent ?s ''2+2 is what?''"
    using isPlanRelevant_ratio [of ascii_agent ?s "''2+2 is what?''"] n by blast
  have k: "matching_words ascii_agent ?l ''weather Paris tomorrow'' = [''paris'']"
    by code_simp
  have 3: "isPlanRelevant ascii_agent ?l ''weather Paris tomorrow''"
    using isPlanRelevant_ratio [of ascii_agent ?l "''weather Paris tomorrow''"]
    by (simp add: w g k)
  from f m n w k 1 2 3 show ?thesis by simp
qed

subsection \<open>The arithmetic scenario\<close>

text \<open>
  C3, as stated, fails: the thought \<open>solve arithmetic\<close> contains none of the words of
  \<open>2+2 is what?\<close>, so the relevance gate rejects the plan; \<open>Execute\<close> returns an error
  after one model call and no Completed event is broadcast.
\<close>

theorem arithmetic_scenario_rejected:
  "Execute (arithmetic_agent ''solve arithmetic'') ''2+2 is what?'' start_state
     = (Err (ThinkStageFailed (PlanCheckFailed PlanNotRelevant)),
        \<lparr>world = 1,
         broadcast = [\<lparr>ID = EvStart, Status = StatusThinking, Data = NoData\<rparr>,
                      \<lparr>ID = EvThink 1, Status = StatusThinking, Data = NoData\<rparr>,
                      \<lparr>ID = EvError, Status = StatusError, Data = NoData\<rparr>]\<rparr>)
   \<and> events_of StatusCompleted
         (snd (Execute (arithmetic_agent ''solve arithmetic'') ''2+2 is what?'' start_state)) = []"
  by code_simp

lemma reason_step_valid:
  "thought \<noteq> [] \<Longrightarrow> validatePlan \<lparr>Thought = thought, Steps = [Some reason_step]\<rparr> = Ok ()"
  by (simp add: validatePlan_def validateStep_def reason_step_def has_key_def)

lemma reason_step_checked:
  "Agent_validatePlan a \<lparr>Thought = thought, Steps = [Some reason_step]\<rparr> query st
     = (if isPlanRelevant a \<lparr>Thought = thought, Steps = [Some reason_step]\<rparr> query then Ok ()
        else Err PlanNotRelevant)"
  by (simp add: Agent_validatePlan_def check_step_def check_tool_step_def check_rag_step_def
        check_reason_step_def reason_step_def get_string_def)

text \<open>
  C3 (amended): let the model's answer to the think prompt of the first pass for the goal
  \<open>2+2 is what?\<close> be a text that \<open>json.Unmarshal\<close> decodes as it is to the single-step
  plan (one reason step with the prompt \<open>2+2\<close> and \<open>continue = false\<close>) with some
  non-empty thought, and let the model answer the prompt \<open>2+2\<close>; the agent has a broker
  and a positive iteration budget.
  If the thought passes the relevance gate for the goal, \<open>Execute\<close> returns the model's
  answer to \<open>2+2\<close> and broadcasts seven events, the last and only one of them with the
  status Completed. If it does not (as for \<open>solve arithmetic\<close>), \<open>Execute\<close>
  returns the validation error of the think phase after the one model call, and
  broadcasts the start event, the think event and one Error event.
\<close>

theorem arithmetic_scenario:
  assumes m: "model a = Some generate" and b: "sseBroker a" and it: "0 < MaxIterations a"
    and think: "generate (ThinkPrompt ''2+2 is what?'' 1 (availableTools a st)) (world st)
                  = (Inr response, w1)"
    and decode: "jsonUnmarshal a response zero_plan
                   = (None, \<lparr>Thought = thought, Steps = [Some reason_step]\<rparr>)"
    and nonempty: "thought \<noteq> []"
    and answer: "generate (StepPrompt ''2+2'') w1 = (Inr answer, w2)"
  shows "Execute a ''2+2 is what?'' st =
     (if isPlanRelevant a \<lparr>Thought = thought, Steps = [Some reason_step]\<rparr> ''2+2 is what?''
      then (Ok answer,
            st\<lparr>world := w2,
               broadcast := broadcast st @
                 [\<lparr>ID = EvStart, Status = StatusThinking, Data = NoData\<rparr>,
                  \<lparr>ID = EvThink 1, Status = StatusThinking, Data = NoData\<rparr>,
                  \<lparr>ID = EvPlan 1, Status = StatusPlanning,
                     Data = PlanData \<lparr>Thought = thought, Steps = [Some reason_step]\<rparr>\<rparr>,
                  \<lparr>ID = EvExecute 1, Status = StatusExecuting,
                     Data = PlanData \<lparr>Thought = thought, Steps = [Some reason_step]\<rparr>\<rparr>,
                  \<lparr>ID = EvStepStart 1, Status = StatusExecuting, Data = StepData reason_step\<rparr>,
                  \<lparr>ID = EvStepComplete 1, Status = StatusExecuting,
                     Data = StepResultData answer False\<rparr>,
                  \<lparr>ID = EvComplete, Status = StatusCompleted, Data = ResultData answer\<rparr>]\<rparr>)
      else (Err (ThinkStageFailed (PlanCheckFailed PlanNotRelevant)),
            st\<lparr>world := w1,
               broadcast := broadcast st @
                 [\<lparr>ID = EvStart, Status = StatusThinking, Data = NoData\<rparr>,
                  \<lparr>ID = EvThink 1, Status = StatusThinking, Data = NoData\<rparr>,
                  \<lparr>ID = EvError, Status = StatusError, Data = NoData\<rparr>]\<rparr>))"
proof -
  let ?q = "''2+2 is what?''"
  let ?plan = "\<lparr>Thought = thought, Steps = [Some reason_step]\<rparr>"
  let ?st0 = "sendEvent a EvStart StatusThinking NoData st"
  let ?st1 = "sendEvent a (EvThink 1) StatusThinking NoData ?st0"
  have gen: "Generate a (buildThinkPrompt a ?q 1 ?st1) ?st1 = (Ok response, ?st1\<lparr>world := w1\<rparr>)"
    using m think by (simp add: Generate_def buildThinkPrompt_def)
  have parse: "ParseExecutionPlan (jsonUnmarshal a) response = Ok ?plan"
    using decode nonempty by (simp add: ParseExecutionPlan_def checked_def reason_step_valid)
  have th: "think a ?q 1 ?st1 =
      (if isPlanRelevant a ?plan ?q then (Ok ?plan, ?st1\<lparr>world := w1\<rparr>)
       else (Err (PlanCheckFailed PlanNotRelevant), ?st1\<lparr>world := w1\<rparr>))"
    by (simp add: think_def gen parse reason_step_checked)
  show ?thesis
  proof (cases "isPlanRelevant a ?plan ?q")
    case False
    with th it m b show ?thesis
      by (simp add: Execute_def thinkExecuteLoop_def thinkExecuteLoop_from.simps [of a 0]
            sendEvent_def)
  next
    case True
    let ?st2 = "sendEvent a (EvExecute 1) StatusExecuting (PlanData ?plan)
                  (sendEvent a (EvPlan 1) StatusPlanning (PlanData ?plan) (?st1\<lparr>world := w1\<rparr>))"
    have ex: "execute a ?plan ?st2 =
        (Ok (answer, False),
         sendEvent a (EvStepComplete 1) StatusExecuting (StepResultData answer False)
           ((sendEvent a (EvStepStart 1) StatusExecuting (StepData reason_step) ?st2)\<lparr>world := w2\<rparr>))"
      using m answer
      by (simp add: execute_def attempt_step_def executeStep_def executeReasonStep_def
            get_string_def Generate_def reason_step_def sendEvent_def)
    from True th it m b ex show ?thesis
      by (simp add: Execute_def thinkExecuteLoop_def thinkExecuteLoop_from.simps [of a 0])
        (simp add: sendEvent_def)
  qed
qed

text \<open>The theorem for the thought \<open>what is 2+2\<close>, which passes the gate.\<close>

theorem arithmetic_scenario_witness:
  "isPlanRelevant (arithmetic_agent ''what is 2+2'')
       \<lparr>Thought = ''what is 2+2'', Steps = [Some reason_step]\<rparr> ''2+2 is what?''
   \<and> fst (Execute (arithmetic_agent ''what is 2+2'') ''2+2 is what?'' start_state) = Ok ''4''
   \<and> length (events_of StatusCompleted
         (snd (Execute (arithmetic_agent ''what is 2+2'') ''2+2 is what?'' start_state))) = 1"
proof -
  let ?a = "arithmetic_agent ''what is 2+2''"
  let ?g = "scripted [Inr (plan_json ''what is 2+2''), Inr ''4'']"
  have m: "model ?a = Some ?g" by (simp add: arithmetic_agent_def demo_agent_def)
  have b: "sseBroker ?a" by (simp add: arithmetic_agent_def demo_agent_def)
  have it: "0 < MaxIterations ?a" by (simp add: arithmetic_agent_def demo_agent_def)
  have think: "?g (ThinkPrompt ''2+2 is what?'' 1 (availableTools ?a start_state)) (world start_state)
                 = (Inr (plan_json ''what is 2+2''), 1)"
    by (simp add: scripted_def start_state_def)
  have decode: "jsonUnmarshal ?a (plan_json ''what is 2+2'') zero_plan
                  = (None, \<lparr>Thought = ''what is 2+2'', Steps = [Some reason_step]\<rparr>)"
    by code_simp
  have nonempty: "''what is 2+2'' \<noteq> []" by simp
  have answer: "?g (StepPrompt ''2+2'') 1 = (Inr ''4'', 2)" by (simp add: scripted_def)
  have rel: "isPlanRelevant ?a \<lparr>Thought = ''what is 2+2'', Steps = [Some reason_step]\<rparr> ''2+2 is what?''"
    by code_simp
  from arithmetic_scenario [OF m b it think decode nonempty answer] rel show ?thesis
    by (simp add: events_of_def start_state_def)
qed

subsection \<open>The plan validator\<close>

lemma validateStep_None_iff: "validateStep i step = None \<longleftrightarrow> step_complete step"
  by (auto simp add: validateStep_def step_complete_def known_action_def required_keys_def has_key_def)

lemma validateSteps_Ok_iff: "validateSteps i steps = Ok () \<longleftrightarrow> list_all present_and_complete steps"
proof (induction steps arbitrary: i)
  case Nil
  then show ?case by simp
next
  case (Cons s steps)
  show ?case
  proof (cases s)
    case None
    then show ?thesis by (simp add: present_and_complete_def)
  next
    case (Some step)
    show ?thesis
    proof (cases "validateStep i step")
      case None
      then have "step_complete step" by (simp add: validateStep_None_iff)
      with None Some Cons.IH [of "i + 1"] show ?thesis by (simp add: present_and_complete_def)
    next
      case (Some e)
      then have "\<not> step_complete step" using validateStep_None_iff [of i step] by auto
      with Some \<open>s = Some step\<close> show ?thesis by (simp add: present_and_complete_def)
    qed
  qed
qed

lemma validateSteps_first:
  "list_all present_and_complete pre \<Longrightarrow> validateStep (i + length pre) step = Some e \<Longrightarrow>
   validateSteps i (pre @ Some step # post) = Err e"
proof (induction pre arbitrary: i)
  case Nil
  then show ?case by simp
next
  case (Cons s pre)
  from Cons.prems obtain p where p: "s = Some p" and c: "step_complete p"
    by (cases s) (simp_all add: present_and_complete_def)
  from Cons.prems have pre: "list_all present_and_complete pre"
    and e: "validateStep ((i + 1) + length pre) step = Some e"
    by simp_all
  from c have "validateStep i p = None" by (simp add: validateStep_None_iff)
  with Cons.IH [OF pre e] p show ?case by simp
qed

lemma validateSteps_no_nil: "validateSteps i (map Some steps) \<noteq> Panic"
proof (induction steps arbitrary: i)
  case Nil
  then show ?case by simp
next
  case (Cons s steps)
  then show ?case by (cases "validateStep i s") simp_all
qed

lemma lacks_required_not_complete: "lacks_required step \<Longrightarrow> \<not> step_complete step"
  by (auto simp add: lacks_required_def step_complete_def list_ex_iff list_all_iff)

lemma validateStep_lacking:
  assumes "known_action (Action step)" "Parameters step \<noteq> None" "lacks_required step"
  shows "\<exists>e k. validateStep i step = Some e \<and> named_key e = Some k \<and> named_step e = None
           \<and> k \<in> set (required_keys (Action step)) \<and> \<not> has_key (Parameters step) k"
  using assms
  by (auto simp add: validateStep_def known_action_def lacks_required_def required_keys_def)

lemma validatePlan_accepts_iff: "validatePlan plan = Ok () \<longleftrightarrow> valid_plan plan"
  by (auto simp add: validatePlan_def valid_plan_def validateSteps_Ok_iff)

lemma lacking_step_not_valid:
  "Some step \<in> set (Steps plan) \<Longrightarrow> lacks_required step \<Longrightarrow> \<not> valid_plan plan"
proof
  assume s: "Some step \<in> set (Steps plan)" and l: "lacks_required step" and v: "valid_plan plan"
  from v s have "present_and_complete (Some step)"
    by (auto simp add: valid_plan_def list_all_iff)
  then have "step_complete step" by (simp add: present_and_complete_def)
  with l show False by (simp add: lacks_required_not_complete)
qed

text \<open>
  C4, as stated, fails: a tool step without \<open>tool_name\<close>, second in a plan, is rejected
  with the constant message for the missing \<open>tool_name\<close> parameter, which names the key
  and no step number.
\<close>

theorem validatePlan_error_without_step_number:
  "lacks_required step_without_tool_name
   \<and> validatePlan
         \<lparr>Thought = ''look it up'', Steps = [Some complete_reason_step, Some step_without_tool_name]\<rparr>
       = Err ToolMissingToolName
   \<and> named_key ToolMissingToolName = Some ''tool_name''
   \<and> named_step ToolMissingToolName = None"
  by (simp add: lacks_required_def step_without_tool_name_def complete_reason_step_def
        required_keys_def has_key_def validatePlan_def validateStep_def)

text \<open>
  C4 (amended): \<open>validatePlan\<close> accepts every valid plan. A plan in which some step lacks
  a required parameter key is never accepted, and it is rejected with an error when no
  element of its steps is null. When the thought is not empty and the first step that is
  not complete lacks a required key, the error is the one for missing parameters with the
  step's number \<open>i+1\<close> if the step has no parameter map at all, and otherwise an error
  that names a required key the step lacks and no step number. A first incomplete step
  without an action is rejected with the step's number.
\<close>

theorem validatePlan_complete_plans:
  "(valid_plan plan \<longrightarrow> validatePlan plan = Ok ())
   \<and> (Some lacking \<in> set (Steps plan) \<and> lacks_required lacking \<longrightarrow> validatePlan plan \<noteq> Ok ())
   \<and> (Steps plan = map Some steps \<and> list_ex lacks_required steps
        \<longrightarrow> (\<exists>e. validatePlan plan = Err e))
   \<and> (Thought plan \<noteq> [] \<and> Steps plan = pre @ Some step # post \<and> list_all present_and_complete pre
        \<and> lacks_required step \<longrightarrow>
        (if Parameters step = None
         then validatePlan plan = Err (StepMissingParameters (length pre + 1))
         else (\<exists>e k. validatePlan plan = Err e \<and> named_key e = Some k \<and> named_step e = None
                 \<and> k \<in> set (required_keys (Action step)) \<and> \<not> has_key (Parameters step) k)))
   \<and> (Thought plan \<noteq> [] \<and> Steps plan = pre @ Some step # post \<and> list_all present_and_complete pre
        \<and> Action step = [] \<longrightarrow>
        validatePlan plan = Err (StepMissingAction (length pre + 1)))"
proof (intro conjI impI)
  assume "valid_plan plan"
  then show "validatePlan plan = Ok ()" by (simp add: validatePlan_accepts_iff)
next
  assume "Some lacking \<in> set (Steps plan) \<and> lacks_required lacking"
  then have "\<not> valid_plan plan" using lacking_step_not_valid [of lacking plan] by blast
  then show "validatePlan plan \<noteq> Ok ()" by (simp add: validatePlan_accepts_iff)
next
  assume a: "Steps plan = map Some steps \<and> list_ex lacks_required steps"
  then obtain s where s: "s \<in> set steps" "lacks_required s" by (auto simp add: list_ex_iff)
  with a have "Some s \<in> set (Steps plan)" by simp
  with s have "\<not> valid_plan plan" using lacking_step_not_valid [of s plan] by blast
  then have 1: "validatePlan plan \<noteq> Ok ()" by (simp add: validatePlan_accepts_iff)
  have 2: "validatePlan plan \<noteq> Panic"
    using a validateSteps_no_nil [of 0 steps] by (simp add: validatePlan_def)
  from 1 2 show "\<exists>e. validatePlan plan = Err e" by (cases "validatePlan plan") auto
next
  assume a: "Thought plan \<noteq> [] \<and> Steps plan = pre @ Some step # post
        \<and> list_all present_and_complete pre \<and> lacks_required step"
  then have known: "known_action (Action step)"
    by (auto simp add: lacks_required_def required_keys_def known_action_def split: if_splits)
  have plan: "validatePlan plan = validateSteps 0 (pre @ Some step # post)"
    using a by (simp add: validatePlan_def)
  show "if Parameters step = None
         then validatePlan plan = Err (StepMissingParameters (length pre + 1))
         else (\<exists>e k. validatePlan plan = Err e \<and> named_key e = Some k \<and> named_step e = None
                 \<and> k \<in> set (required_keys (Action step)) \<and> \<not> has_key (Parameters step) k)"
  proof (cases "Parameters step = None")
    case True
    with known have "validateStep (0 + length pre) step = Some (StepMissingParameters (length pre + 1))"
      by (auto simp add: validateStep_def known_action_def)
    with a plan True show ?thesis by (simp add: validateSteps_first)
  next
    case False
    with known a obtain e k where e: "validateStep (0 + length pre) step = Some e"
      and k: "named_key e = Some k" "named_step e = None"
        "k \<in> set (required_keys (Action step))" "\<not> has_key (Parameters step) k"
      using validateStep_lacking [of step "0 + length pre"] by blast
    from a e have "validateSteps 0 (pre @ Some step # post) = Err e"
      by (simp add: validateSteps_first)
    with plan k False show ?thesis by auto
  qed
next
  assume a: "Thought plan \<noteq> [] \<and> Steps plan = pre @ Some step # post
        \<and> list_all present_and_complete pre \<and> Action step = []"
  then have "validateStep (0 + length pre) step = Some (StepMissingAction (length pre + 1))"
    by (simp add: validateStep_def)
  with a have "validateSteps 0 (pre @ Some step # post) = Err (StepMissingAction (length pre + 1))"
    by (simp add: validateSteps_first)
  with a show "validatePlan plan = Err (StepMissingAction (length pre + 1))"
    by (simp add: validatePlan_def)
qed

text \<open>The theorem at a valid one-step plan, at a plan whose second step lacks
  \<open>tool_name\<close>, and at plans whose second step has no parameter map or no action.\<close>

theorem validatePlan_complete_plans_witness:
  "valid_plan \<lparr>Thought = ''look it up'', Steps = [Some complete_reason_step]\<rparr>
   \<and> validatePlan \<lparr>Thought = ''look it up'', Steps = [Some complete_reason_step]\<rparr> = Ok ()
   \<and> lacks_required step_without_tool_name
   \<and> (\<exists>e. validatePlan
              \<lparr>Thought = ''look it up'',
               Steps = [Some complete_reason_step, Some step_without_tool_name]\<rparr> = Err e)
   \<and> validatePlan
         \<lparr>Thought = ''look it up'',
          Steps = [Some complete_reason_step, Some step_without_tool_name, None]\<rparr> \<noteq> Ok ()
   \<and> validatePlan
         \<lparr>Thought = ''look it up'',
          Steps = [Some complete_reason_step, Some step_without_parameters, None]\<rparr>
       = Err (StepMissingParameters 2)
   \<and> validatePlan
         \<lparr>Thought = ''look it up'',
          Steps = [Some complete_reason_step, Some step_without_action]\<rparr>
       = Err (StepMissingAction 2)"
proof -
  let ?one = "\<lparr>Thought = ''look it up'', Steps = [Some complete_reason_step]\<rparr>"
  let ?two = "\<lparr>Thought = ''look it up'',
               Steps = [Some complete_reason_step, Some step_without_tool_name]\<rparr>"
  let ?nil = "\<lparr>Thought = ''look it up'',
               Steps = [Some complete_reason_step, Some step_without_tool_name, None]\<rparr>"
  let ?par = "\<lparr>Thought = ''look it up'',
               Steps = [Some complete_reason_step, Some step_without_parameters, None]\<rparr>"
  let ?act = "\<lparr>Thought = ''look it up'',
               Steps = [Some complete_reason_step, Some step_without_action]\<rparr>"
  have c: "present_and_complete (Some complete_reason_step)"
    by (simp add: present_and_complete_def step_complete_def complete_reason_step_def
          known_action_def required_keys_def has_key_def)
  then have v: "valid_plan ?one" by (simp add: valid_plan_def)
  have l: "lacks_required step_without_tool_name"
    by (simp add: lacks_required_def step_without_tool_name_def required_keys_def has_key_def)
  have lp: "lacks_required step_without_parameters"
    by (simp add: lacks_required_def step_without_parameters_def required_keys_def has_key_def)
  from v validatePlan_complete_plans [of ?one]
  have 1: "validatePlan ?one = Ok ()" by blast
  from l validatePlan_complete_plans
         [of ?two _ "[complete_reason_step, step_without_tool_name]"]
  have 2: "\<exists>e. validatePlan ?two = Err e" by simp
  from l validatePlan_complete_plans [of ?nil step_without_tool_name]
  have 3: "validatePlan ?nil \<noteq> Ok ()" by simp
  from c lp validatePlan_complete_plans
         [of ?par _ _ "[Some complete_reason_step]" step_without_parameters "[None]"]
  have 4: "validatePlan ?par = Err (StepMissingParameters 2)"
    by (simp add: step_without_parameters_def)
  from c validatePlan_complete_plans
         [of ?act _ _ "[Some complete_reason_step]" step_without_action "[]"]
  have 5: "validatePlan ?act = Err (StepMissingAction 2)"
    by (simp add: step_without_action_def)
  from v l 1 2 3 4 5 show ?thesis by simp
qed

subsection \<open>Ending the loop\<close>

text \<open>
  C5: a step with \<open>continue = false\<close> ends the execute phase whatever steps follow it:
  the later steps have no effect on the result, the world or the events (first part), and
  the phase returns that step's result with \<open>shouldContinue = false\<close>, wherever in the
  plan the loop reaches the step (second part). When the execute phase of a pass returns a
  result with \<open>shouldContinue = false\<close>, after any number of passes that continued,
  \<open>Execute\<close> returns that result (third part). When all \<open>MaxIterations\<close> passes
  complete with \<open>shouldContinue = true\<close>, \<open>Execute\<close> returns the error of the exceeded
  iteration budget (fourth part; \<open>MaxIterations\<close> is positive, as the configuration
  requires).
\<close>

theorem continue_false_ends_run:
  "(list_all ShouldContinue pre \<and> \<not> ShouldContinue step
    \<longrightarrow> execute a \<lparr>Thought = thought, Steps = map Some pre @ Some step # post\<rparr> st
          = execute a \<lparr>Thought = thought, Steps = map Some pre @ [Some step]\<rparr> st)
   \<and> (\<not> ShouldContinue step
    \<longrightarrow> execute_loop a n i (Some step # post) result c history st =
          (case attempt_step a i step history
                  (sendEvent a (EvStepStart (i + 1)) StatusExecuting (StepData step) st) of
             (Ok stepResult, st') \<Rightarrow>
               (Ok (stepResult, False),
                sendEvent a (EvStepComplete (i + 1)) StatusExecuting
                  (StepResultData stepResult False) st')
           | (Err err, st') \<Rightarrow> (Err err, st')
           | (Panic, st') \<Rightarrow> (Panic, st')))
   \<and> (continuing_passes a k 0 goal (sendEvent a EvStart StatusThinking NoData st0) = Some (query, st1)
      \<and> int k < MaxIterations a
      \<and> think a query (int k + 1) (sendEvent a (EvThink (int k + 1)) StatusThinking NoData st1)
          = (Ok plan, st2)
      \<and> execute a plan
           (sendEvent a (EvExecute (int k + 1)) StatusExecuting (PlanData plan)
              (sendEvent a (EvPlan (int k + 1)) StatusPlanning (PlanData plan) st2))
          = (Ok (answer, False), st3)
    \<longrightarrow> Execute a goal st0
          = (Ok answer, sendEvent a EvComplete StatusCompleted (ResultData answer) st3))
   \<and> (0 < MaxIterations a
      \<and> continuing_passes a (nat (MaxIterations a)) 0 goal
           (sendEvent a EvStart StatusThinking NoData st0) = Some (query', st4)
    \<longrightarrow> Execute a goal st0
          = (Err (IterationBudgetExceeded (MaxIterations a)),
             sendEvent a EvError StatusError NoData st4))"
proof (intro conjI impI)
  assume "list_all ShouldContinue pre \<and> \<not> ShouldContinue step"
  then show "execute a \<lparr>Thought = thought, Steps = map Some pre @ Some step # post\<rparr> st
          = execute a \<lparr>Thought = thought, Steps = map Some pre @ [Some step]\<rparr> st"
    by (intro execute_truncate) simp_all
next
  assume "\<not> ShouldContinue step"
  then show "execute_loop a n i (Some step # post) result c history st =
          (case attempt_step a i step history
                  (sendEvent a (EvStepStart (i + 1)) StatusExecuting (StepData step) st) of
             (Ok stepResult, st') \<Rightarrow>
               (Ok (stepResult, False),
                sendEvent a (EvStepComplete (i + 1)) StatusExecuting
                  (StepResultData stepResult False) st')
           | (Err err, st') \<Rightarrow> (Err err, st')
           | (Panic, st') \<Rightarrow> (Panic, st'))"
    by (rule execute_loop_stop)
next
  assume "continuing_passes a k 0 goal (sendEvent a EvStart StatusThinking NoData st0) = Some (query, st1)
      \<and> int k < MaxIterations a
      \<and> think a query (int k + 1) (sendEvent a (EvThink (int k + 1)) StatusThinking NoData st1)
          = (Ok plan, st2)
      \<and> execute a plan
           (sendEvent a (EvExecute (int k + 1)) StatusExecuting (PlanData plan)
              (sendEvent a (EvPlan (int k + 1)) StatusPlanning (PlanData plan) st2))
          = (Ok (answer, False), st3)"
  then show "Execute a goal st0
          = (Ok answer, sendEvent a EvComplete StatusCompleted (ResultData answer) st3)"
    by (intro Execute_stops [of a k goal st0 query st1 plan st2]) simp_all
next
  assume "0 < MaxIterations a
      \<and> continuing_passes a (nat (MaxIterations a)) 0 goal
           (sendEvent a EvStart StatusThinking NoData st0) = Some (query', st4)"
  then show "Execute a goal st0
          = (Err (IterationBudgetExceeded (MaxIterations a)),
             sendEvent a EvError StatusError NoData st4)"
    by (intro Execute_budget [of a goal st0 query']) simp_all
qed

text \<open>The theorem at a plan of three steps whose second step stops (the model is called
  three times: the third step is never run), and at a model whose plans always
  continue.\<close>

theorem continue_false_ends_run_witness:
  "execute chain_agent chain_plan start_state
     = execute chain_agent
         \<lparr>Thought = ''what is 2+2 doubled'',
          Steps = [Some (reason ''2+2'' True), Some (reason ''double it'' False)]\<rparr>
         start_state
   \<and> fst (execute_loop chain_agent 3 1
              [Some (reason ''double it'' False), Some (reason ''never asked'' True)]
              ''4'' True [''4''] \<lparr>world = 2, broadcast = []\<rparr>) = Ok (''8'', False)
   \<and> fst (Execute chain_agent ''what is 2+2 doubled'' start_state) = Ok ''8''
   \<and> world (snd (Execute chain_agent ''what is 2+2 doubled'' start_state)) = 3
   \<and> fst (Execute echo_agent ''echo'' start_state) = Err (IterationBudgetExceeded 3)"
proof -
  let ?g = "''what is 2+2 doubled''"
  let ?s0 = "sendEvent chain_agent EvStart StatusThinking NoData start_state"
  let ?t = "think chain_agent ?g (int 0 + 1)
              (sendEvent chain_agent (EvThink (int 0 + 1)) StatusThinking NoData ?s0)"
  let ?x = "execute chain_agent chain_plan
              (sendEvent chain_agent (EvExecute (int 0 + 1)) StatusExecuting (PlanData chain_plan)
                 (sendEvent chain_agent (EvPlan (int 0 + 1)) StatusPlanning (PlanData chain_plan)
                    (snd ?t)))"
  have 1: "execute chain_agent chain_plan start_state
     = execute chain_agent
         \<lparr>Thought = ''what is 2+2 doubled'',
          Steps = [Some (reason ''2+2'' True), Some (reason ''double it'' False)]\<rparr>
         start_state"
    using continue_false_ends_run [where a = chain_agent and pre = "[reason ''2+2'' True]"
        and step = "reason ''double it'' False" and thought = "''what is 2+2 doubled''"
        and post = "[Some (reason ''never asked'' True)]" and st = start_state]
    by (simp add: chain_plan_def reason_def)
  have a: "attempt_step chain_agent 1 (reason ''double it'' False) [''4'']
             (sendEvent chain_agent (EvStepStart (1 + 1)) StatusExecuting
                (StepData (reason ''double it'' False)) \<lparr>world = 2, broadcast = []\<rparr>)
           = (Ok ''8'',
              \<lparr>world = 3,
               broadcast = [\<lparr>ID = EvStepStart 2, Status = StatusExecuting,
                               Data = StepData (reason ''double it'' False)\<rparr>]\<rparr>)"
    by code_simp
  have 2: "fst (execute_loop chain_agent 3 1
              [Some (reason ''double it'' False), Some (reason ''never asked'' True)]
              ''4'' True [''4''] \<lparr>world = 2, broadcast = []\<rparr>) = Ok (''8'', False)"
    using continue_false_ends_run [where a = chain_agent and step = "reason ''double it'' False"
        and n = 3 and i = 1 and post = "[Some (reason ''never asked'' True)]" and result = "''4''"
        and c = True and history = "[''4'']" and st = "\<lparr>world = 2, broadcast = []\<rparr>"] a
    by (simp add: reason_def)
  have p: "continuing_passes chain_agent 0 0 ?g ?s0 = Some (?g, ?s0)" by simp
  have b: "int 0 < MaxIterations chain_agent" by (simp add: chain_agent_def demo_agent_def)
  have "fst ?t = Ok chain_plan" by code_simp
  then have t: "?t = (Ok chain_plan, snd ?t)" by (simp add: prod_eq_iff)
  have "fst ?x = Ok (''8'', False)" by code_simp
  then have x: "?x = (Ok (''8'', False), snd ?x)" by (simp add: prod_eq_iff)
  have 3: "fst (Execute chain_agent ?g start_state) = Ok ''8''"
    using continue_false_ends_run [where a = chain_agent and k = 0 and goal = ?g
        and ?st0.0 = start_state and query = ?g and ?st1.0 = ?s0 and plan = chain_plan
        and ?st2.0 = "snd ?t" and answer = "''8''" and ?st3.0 = "snd ?x"] p b t x
    by simp
  have 4: "world (snd (Execute chain_agent ?g start_state)) = 3" by code_simp
  let ?e0 = "sendEvent echo_agent EvStart StatusThinking NoData start_state"
  have pos: "0 < MaxIterations echo_agent" by (simp add: echo_agent_def demo_agent_def)
  have "continuing_passes echo_agent (nat (MaxIterations echo_agent)) 0 ''echo'' ?e0 \<noteq> None"
    by code_simp
  then obtain q' st4 where
    e: "continuing_passes echo_agent (nat (MaxIterations echo_agent)) 0 ''echo'' ?e0 = Some (q', st4)"
    by auto
  have m: "MaxIterations echo_agent = 3" by (simp add: echo_agent_def demo_agent_def)
  have 5: "fst (Execute echo_agent ''echo'' start_state) = Err (IterationBudgetExceeded 3)"
    using continue_false_ends_run [where a = echo_agent and goal = "''echo''"
        and ?st0.0 = start_state and query' = q' and ?st4.0 = st4] pos e
    by (simp add: m)
  from 1 2 3 4 5 show ?thesis by simp
qed

subsection \<open>Recovery\<close>

lemma try_inputs_all_fail:
  "(\<forall>input\<in>set inputs. \<forall>w. \<exists>e w'. ExecuteTool tm toolName input w = (Inl e, w')) \<Longrightarrow>
   \<exists>st'. try_inputs tm toolName inputs st = (Err AllAlternativesFailed, st')"
proof (induction inputs arbitrary: st)
  case Nil
  then show ?case by simp
next
  case (Cons input inputs)
  from Cons.prems obtain e w' where c: "ExecuteTool tm toolName input (world st) = (Inl e, w')"
    by (meson list.set_intros(1))
  from Cons.prems have "\<forall>input\<in>set inputs. \<forall>w. \<exists>e w'. ExecuteTool tm toolName input w = (Inl e, w')"
    by simp
  from Cons.IH [OF this, of "st\<lparr>world := w'\<rparr>"] c show ?case by simp
qed

lemma try_queries_all_fail:
  "(\<forall>alt\<in>set queries. \<forall>w. (\<exists>e w'. Search engine alt 3 w = (Inl e, w'))
                              \<or> (\<exists>w'. Search engine alt 3 w = (Inr [], w'))) \<Longrightarrow>
   \<exists>st'. try_queries engine queries st = (Err AllAlternativeQueriesFailed, st')"
proof (induction queries arbitrary: st)
  case Nil
  then show ?case by simp
next
  case (Cons alt queries)
  from Cons.prems have rest: "\<forall>alt\<in>set queries. \<forall>w. (\<exists>e w'. Search engine alt 3 w = (Inl e, w'))
                              \<or> (\<exists>w'. Search engine alt 3 w = (Inr [], w'))"
    by simp
  from Cons.prems have "(\<exists>e w'. Search engine alt 3 (world st) = (Inl e, w'))
                          \<or> (\<exists>w'. Search engine alt 3 (world st) = (Inr [], w'))"
    by (meson list.set_intros(1))
  then show ?case
  proof
    assume "\<exists>e w'. Search engine alt 3 (world st) = (Inl e, w')"
    then obtain e w' where "Search engine alt 3 (world st) = (Inl e, w')" by blast
    with Cons.IH [OF rest, of "st\<lparr>world := w'\<rparr>"] show ?thesis by simp
  next
    assume "\<exists>w'. Search engine alt 3 (world st) = (Inr [], w')"
    then obtain w' where "Search engine alt 3 (world st) = (Inr [], w')" by blast
    with Cons.IH [OF rest, of "st\<lparr>world := w'\<rparr>"] show ?thesis by simp
  qed
qed

lemma marker_in_text: "Contains (marker @ rest) marker"
  unfolding Contains_def sublist_def by (intro exI [of _ "[]"] exI [of _ rest]) simp

lemma tool_failure_strategy:
  assumes "Action step = ''search_tool''"
  shows "recoverFromError a step (ToolCallFailed toolName e) history st
           = recoverToolError a step history st"
  using assms marker_in_text [of marker_tool "'' '' @ toolName @ '': '' @ e"]
  by (simp add: recoverFromError_def)

lemma rag_failure_strategy:
  assumes "Action step = ''rag_search''"
  shows "recoverFromError a step (RagSearchFailed e) history st
           = recoverRAGError a step history st"
  using assms marker_in_text [of marker_rag "'': '' @ e"]
  by (simp add: recoverFromError_def)

lemma reason_failure_strategy:
  assumes "Action step = ''reason''"
  shows "recoverFromError a step (ReasonFailed e) history st
           = recoverReasonError a step history st"
  using assms marker_in_text [of marker_reason "'': '' @ e"]
  by (simp add: recoverFromError_def)

lemma tool_manager_missing_unmarked: "\<not> Contains tool_manager_missing_text marker_tool"
  by code_simp

lemma rag_engine_missing_unmarked: "\<not> Contains rag_engine_missing_text marker_rag"
  by code_simp

lemma executeToolStep_errors:
  "executeToolStep a step st = (Err err, st1) \<Longrightarrow>
   err = ToolManagerMissing
   \<or> (\<exists>toolName e. err = ToolCallFailed toolName e
         \<and> get_string (Parameters step) ''tool_name'' = Some toolName)"
  by (auto simp add: executeToolStep_def split: option.splits prod.splits sum.splits)

lemma executeRAGStep_errors:
  "executeRAGStep a step st = (Err err, st1) \<Longrightarrow> err = RagEngineMissing \<or> (\<exists>e. err = RagSearchFailed e)"
  by (auto simp add: executeRAGStep_def split: option.splits prod.splits sum.splits)

lemma executeReasonStep_errors:
  "executeReasonStep a step st = (Err err, st1) \<Longrightarrow> \<exists>e. err = ReasonFailed e"
  by (auto simp add: executeReasonStep_def split: option.splits prod.splits outcome.splits)

lemma default_strategy:
  assumes x: "executeStep a step st = (Err err, st1)" and nb: "\<not> backend_failure err"
  shows "recoverFromError a step err history st'
           = defaultRecovery a step history (step_error_text err) st'"
proof -
  consider (tool) "Action step = ''search_tool''" | (rag) "Action step = ''rag_search''"
    | (reason) "Action step = ''reason''"
    | (other) "Action step \<noteq> ''search_tool''" "Action step \<noteq> ''rag_search''" "Action step \<noteq> ''reason''"
    by blast
  then show ?thesis
  proof cases
    case tool
    with x have "executeToolStep a step st = (Err err, st1)" by (simp add: executeStep_def)
    from executeToolStep_errors [OF this] nb have "err = ToolManagerMissing" by auto
    with tool show ?thesis
      by (simp add: recoverFromError_def tool_manager_missing_unmarked)
  next
    case rag
    with x have "executeRAGStep a step st = (Err err, st1)" by (simp add: executeStep_def)
    from executeRAGStep_errors [OF this] nb have "err = RagEngineMissing" by auto
    with rag show ?thesis
      by (simp add: recoverFromError_def rag_engine_missing_unmarked)
  next
    case reason
    with x have "executeReasonStep a step st = (Err err, st1)" by (simp add: executeStep_def)
    from executeReasonStep_errors [OF this] nb show ?thesis by auto
  next
    case other
    then show ?thesis by (simp add: recoverFromError_def)
  qed
qed

lemma Generate_fails:
  "model a = Some generate \<Longrightarrow> (\<forall>w. \<exists>e w'. generate p w = (Inl e, w')) \<Longrightarrow>
   \<exists>e st'. Generate a p st = (Err e, st')"
proof -
  assume m: "model a = Some generate" and f: "\<forall>w. \<exists>e w'. generate p w = (Inl e, w')"
  from f obtain e w' where "generate p (world st) = (Inl e, w')" by blast
  with m show ?thesis by (simp add: Generate_def)
qed

lemma loop_unrecovered:
  assumes "executeStep a step
             (sendEvent a (EvStepStart (i + 1)) StatusExecuting (StepData step) st0) = (Err err, st1)"
    and "recoverFromError a step err history
           (sendEvent a (EvStepError (i + 1)) StatusError NoData st1) = (Err recoverErr, st2)"
  shows "execute_loop a n i (Some step # rest) result c history st0
           = (Err (StepFailed (i + 1) err recoverErr), st2)"
  using assms by (simp add: attempt_step_def)

lemma loop_recovered:
  assumes "executeStep a step
             (sendEvent a (EvStepStart (i + 1)) StatusExecuting (StepData step) st0) = (Err err, st1)"
    and "recoverFromError a step err history
           (sendEvent a (EvStepError (i + 1)) StatusError NoData st1) = (Ok recovered, st2)"
  shows "execute_loop a n i (Some step # rest) result c history st0
           = (if ShouldContinue step \<and> int i < int n - 1
              then execute_loop a n (i + 1) rest recovered (ShouldContinue step)
                     (history @ [recovered])
                     (sendEvent a (EvStepComplete (i + 1)) StatusExecuting
                        (StepResultData recovered (ShouldContinue step))
                        (sendEvent a (EvStepRecovered (i + 1)) StatusExecuting
                           (ResultData recovered) st2))
              else (Ok (recovered, ShouldContinue step),
                    sendEvent a (EvStepComplete (i + 1)) StatusExecuting
                      (StepResultData recovered (ShouldContinue step))
                      (sendEvent a (EvStepRecovered (i + 1)) StatusExecuting
                         (ResultData recovered) st2)))"
  using assms by (simp add: attempt_step_def Let_def)

lemma tool_recovery_fails:
  assumes act: "Action step = ''search_tool''" and tm: "toolManager a = Some tm"
    and x: "executeStep a step st = (Err (ToolCallFailed toolName e), st1)"
    and f: "\<forall>input\<in>set (generateAlternativeInputs step history).
              \<forall>w. \<exists>e' w'. ExecuteTool tm toolName input w = (Inl e', w')"
  shows "\<exists>st2. recoverFromError a step (ToolCallFailed toolName e) history st'
                 = (Err AllAlternativesFailed, st2)"
proof -
  from act x have "executeToolStep a step st = (Err (ToolCallFailed toolName e), st1)"
    by (simp add: executeStep_def)
  from executeToolStep_errors [OF this]
  have n: "get_string (Parameters step) ''tool_name'' = Some toolName" by simp
  have "recoverFromError a step (ToolCallFailed toolName e) history st'
          = try_inputs tm toolName (generateAlternativeInputs step history) st'"
    using tm n by (simp add: tool_failure_strategy [OF act] recoverToolError_def)
  with try_inputs_all_fail [OF f, of st'] show ?thesis by simp
qed

lemma tool_recovery_retries:
  assumes act: "Action step = ''search_tool''" and tm: "toolManager a = Some tm"
    and x: "executeStep a step st = (Err (ToolCallFailed toolName e), st1)"
    and i: "get_string (Parameters step) ''input'' = Some input"
    and r: "ExecuteTool tm toolName input (world st') = (Inr r, w')"
  shows "recoverFromError a step (ToolCallFailed toolName e) history st'
           = (Ok r, st'\<lparr>world := w'\<rparr>)"
proof -
  from act x have "executeToolStep a step st = (Err (ToolCallFailed toolName e), st1)"
    by (simp add: executeStep_def)
  from executeToolStep_errors [OF this]
  have n: "get_string (Parameters step) ''tool_name'' = Some toolName" by simp
  show ?thesis
    using tm n i r
    by (simp add: tool_failure_strategy [OF act] recoverToolError_def generateAlternativeInputs_def)
qed

lemma rag_recovery_fails:
  assumes act: "Action step = ''rag_search''" and en: "ragEngine a = Some engine"
    and q: "get_string (Parameters step) ''query'' = Some q"
    and f: "\<forall>alt\<in>set (generateAlternativeQueries a q history).
              \<forall>w. (\<exists>e' w'. Search engine alt 3 w = (Inl e', w'))
                  \<or> (\<exists>w'. Search engine alt 3 w = (Inr [], w'))"
  shows "\<exists>st2. recoverFromError a step (RagSearchFailed e) history st'
                 = (Err AllAlternativeQueriesFailed, st2)"
proof -
  have "recoverFromError a step (RagSearchFailed e) history st'
          = try_queries engine (generateAlternativeQueries a q history) st'"
    using en q by (simp add: rag_failure_strategy [OF act] recoverRAGError_def)
  with try_queries_all_fail [OF f, of st'] show ?thesis by simp
qed

lemma reason_recovery_fails:
  assumes act: "Action step = ''reason''" and m: "model a = Some generate"
    and p: "get_string (Parameters step) ''prompt'' = Some p"
    and f: "\<forall>w. \<exists>e' w'. generate (ReasonRecoveryPrompt history p) w = (Inl e', w')"
  shows "\<exists>e' st2. recoverFromError a step (ReasonFailed e) history st'
                    = (Err (RecoverReasonFailed e'), st2)"
proof -
  from Generate_fails [OF m f, of st'] obtain e' st2 where
    "Generate a (ReasonRecoveryPrompt history p) st' = (Err e', st2)" by blast
  then have "recoverFromError a step (ReasonFailed e) history st' = (Err (RecoverReasonFailed e'), st2)"
    using p by (simp add: reason_failure_strategy [OF act] recoverReasonError_def)
  then show ?thesis by blast
qed

lemma default_recovery_fails:
  assumes x: "executeStep a step st = (Err err, st1)" and nb: "\<not> backend_failure err"
    and m: "model a = Some generate"
    and f: "\<forall>w. \<exists>e' w'. generate (DefaultRecoveryPrompt (step_error_text err) history) w = (Inl e', w')"
  shows "\<exists>e' st2. recoverFromError a step err history st' = (Err (DefaultRecoveryFailed e'), st2)"
proof -
  from Generate_fails [OF m f, of st'] obtain e' st2 where
    "Generate a (DefaultRecoveryPrompt (step_error_text err) history) st' = (Err e', st2)" by blast
  then have "recoverFromError a step err history st' = (Err (DefaultRecoveryFailed e'), st2)"
    by (simp add: default_strategy [OF x nb] defaultRecovery_def)
  then show ?thesis by blast
qed

text \<open>
  C6: when a step returns an error and the recovery returns a result, the loop of the
  execute phase goes on with that result as with the result of any step: it is the result
  so far, it is appended to the history, and the step's \<open>continue\<close> flag decides (first
  part); the recovery of a failed tool call first calls the tool again with the same input
  and returns the result of that call (third part). When the recovery returns an error
  too, the execute phase returns the error composed of the step's number, the error of
  the step and the error of the recovery (second part). Every recovery strategy returns
  an error when all its attempts fail, and the execute phase then returns the composed
  error: the tool strategy when the tool fails for every alternative input (fourth part),
  the retrieval strategy when every alternative query fails or finds nothing (fifth
  part), the strategy for a reason step and the default strategy when the model fails at
  the recovery prompt (sixth and seventh part). \<open>Execute\<close> returns the composed error of
  the execute phase as the error of the execute stage, not a result (eighth part).
\<close>

theorem recovery_result_or_composed_error:
  "(executeStep a step (sendEvent a (EvStepStart (i + 1)) StatusExecuting (StepData step) st0)
        = (Err err, st1)
      \<and> recoverFromError a step err history
           (sendEvent a (EvStepError (i + 1)) StatusError NoData st1) = (Ok recovered, st2)
    \<longrightarrow> execute_loop a n i (Some step # rest) result c history st0
          = (if ShouldContinue step \<and> int i < int n - 1
             then execute_loop a n (i + 1) rest recovered (ShouldContinue step)
                    (history @ [recovered])
                    (sendEvent a (EvStepComplete (i + 1)) StatusExecuting
                       (StepResultData recovered (ShouldContinue step))
                       (sendEvent a (EvStepRecovered (i + 1)) StatusExecuting
                          (ResultData recovered) st2))
             else (Ok (recovered, ShouldContinue step),
                   sendEvent a (EvStepComplete (i + 1)) StatusExecuting
                     (StepResultData recovered (ShouldContinue step))
                     (sendEvent a (EvStepRecovered (i + 1)) StatusExecuting
                        (ResultData recovered) st2))))
   \<and> (executeStep a step (sendEvent a (EvStepStart (i + 1)) StatusExecuting (StepData step) st0)
        = (Err err, st1)
      \<and> recoverFromError a step err history
           (sendEvent a (EvStepError (i + 1)) StatusError NoData st1) = (Err recoverErr, st2)
    \<longrightarrow> execute_loop a n i (Some step # rest) result c history st0
          = (Err (StepFailed (i + 1) err recoverErr), st2))
   \<and> (Action step = ''search_tool'' \<and> toolManager a = Some tm
      \<and> executeStep a step st = (Err (ToolCallFailed toolName e), st1)
      \<and> get_string (Parameters step) ''input'' = Some input
      \<and> ExecuteTool tm toolName input (world st3) = (Inr retried, w3)
    \<longrightarrow> recoverFromError a step (ToolCallFailed toolName e) history st3
          = (Ok retried, st3\<lparr>world := w3\<rparr>))
   \<and> (Action step = ''search_tool'' \<and> toolManager a = Some tm
      \<and> executeStep a step (sendEvent a (EvStepStart (i + 1)) StatusExecuting (StepData step) st0)
          = (Err (ToolCallFailed toolName e), st1)
      \<and> (\<forall>input\<in>set (generateAlternativeInputs step history).
            \<forall>w. \<exists>e' w'. ExecuteTool tm toolName input w = (Inl e', w'))
    \<longrightarrow> (\<exists>st'. execute_loop a n i (Some step # rest) result c history st0
                  = (Err (StepFailed (i + 1) (ToolCallFailed toolName e) AllAlternativesFailed), st')))
   \<and> (Action step = ''rag_search'' \<and> ragEngine a = Some engine
      \<and> executeStep a step (sendEvent a (EvStepStart (i + 1)) StatusExecuting (StepData step) st0)
          = (Err (RagSearchFailed e), st1)
      \<and> get_string (Parameters step) ''query'' = Some q
      \<and> (\<forall>alt\<in>set (generateAlternativeQueries a q history).
            \<forall>w. (\<exists>e' w'. Search engine alt 3 w = (Inl e', w'))
                \<or> (\<exists>w'. Search engine alt 3 w = (Inr [], w')))
    \<longrightarrow> (\<exists>st'. execute_loop a n i (Some step # rest) result c history st0
                  = (Err (StepFailed (i + 1) (RagSearchFailed e) AllAlternativeQueriesFailed), st')))
   \<and> (Action step = ''reason'' \<and> model a = Some generate
      \<and> executeStep a step (sendEvent a (EvStepStart (i + 1)) StatusExecuting (StepData step) st0)
          = (Err (ReasonFailed e), st1)
      \<and> get_string (Parameters step) ''prompt'' = Some p
      \<and> (\<forall>w. \<exists>e' w'. generate (ReasonRecoveryPrompt history p) w = (Inl e', w'))
    \<longrightarrow> (\<exists>e' st'. execute_loop a n i (Some step # rest) result c history st0
                  = (Err (StepFailed (i + 1) (ReasonFailed e) (RecoverReasonFailed e')), st')))
   \<and> (model a = Some generate
      \<and> executeStep a step (sendEvent a (EvStepStart (i + 1)) StatusExecuting (StepData step) st0)
          = (Err err, st1)
      \<and> \<not> backend_failure err
      \<and> (\<forall>w. \<exists>e' w'. generate (DefaultRecoveryPrompt (step_error_text err) history) w = (Inl e', w'))
    \<longrightarrow> (\<exists>e' st'. execute_loop a n i (Some step # rest) result c history st0
                  = (Err (StepFailed (i + 1) err (DefaultRecoveryFailed e')), st')))
   \<and> (continuing_passes a k 0 goal (sendEvent a EvStart StatusThinking NoData st4) = Some (query, st5)
      \<and> int k < MaxIterations a
      \<and> think a query (int k + 1) (sendEvent a (EvThink (int k + 1)) StatusThinking NoData st5)
          = (Ok plan, st6)
      \<and> execute a plan
           (sendEvent a (EvExecute (int k + 1)) StatusExecuting (PlanData plan)
              (sendEvent a (EvPlan (int k + 1)) StatusPlanning (PlanData plan) st6))
          = (Err (StepFailed j serr rerr), st7)
    \<longrightarrow> Execute a goal st4
          = (Err (ExecuteStageFailed (StepFailed j serr rerr)),
             sendEvent a EvError StatusError NoData st7))"
proof (intro conjI impI)
  let ?start = "sendEvent a (EvStepStart (i + 1)) StatusExecuting (StepData step) st0"
  let ?failed = "sendEvent a (EvStepError (i + 1)) StatusError NoData st1"
  {
    assume h: "executeStep a step ?start = (Err err, st1)
      \<and> recoverFromError a step err history ?failed = (Ok recovered, st2)"
    show "execute_loop a n i (Some step # rest) result c history st0
          = (if ShouldContinue step \<and> int i < int n - 1
             then execute_loop a n (i + 1) rest recovered (ShouldContinue step)
                    (history @ [recovered])
                    (sendEvent a (EvStepComplete (i + 1)) StatusExecuting
                       (StepResultData recovered (ShouldContinue step))
                       (sendEvent a (EvStepRecovered (i + 1)) StatusExecuting
                          (ResultData recovered) st2))
             else (Ok (recovered, ShouldContinue step),
                   sendEvent a (EvStepComplete (i + 1)) StatusExecuting
                     (StepResultData recovered (ShouldContinue step))
                     (sendEvent a (EvStepRecovered (i + 1)) StatusExecuting
                        (ResultData recovered) st2)))"
      using h by (intro loop_recovered [of a step i st0 err st1]) simp_all
  next
    assume h: "executeStep a step ?start = (Err err, st1)
      \<and> recoverFromError a step err history ?failed = (Err recoverErr, st2)"
    show "execute_loop a n i (Some step # rest) result c history st0
          = (Err (StepFailed (i + 1) err recoverErr), st2)"
      using h by (intro loop_unrecovered [of a step i st0 err st1]) simp_all
  next
    assume h: "Action step = ''search_tool'' \<and> toolManager a = Some tm
      \<and> executeStep a step st = (Err (ToolCallFailed toolName e), st1)
      \<and> get_string (Parameters step) ''input'' = Some input
      \<and> ExecuteTool tm toolName input (world st3) = (Inr retried, w3)"
    show "recoverFromError a step (ToolCallFailed toolName e) history st3
          = (Ok retried, st3\<lparr>world := w3\<rparr>)"
      using h by (intro tool_recovery_retries [of step a tm st toolName e st1 input]) simp_all
  next
    assume h: "Action step = ''search_tool'' \<and> toolManager a = Some tm
      \<and> executeStep a step ?start = (Err (ToolCallFailed toolName e), st1)
      \<and> (\<forall>input\<in>set (generateAlternativeInputs step history).
            \<forall>w. \<exists>e' w'. ExecuteTool tm toolName input w = (Inl e', w'))"
    then obtain st' where
      "recoverFromError a step (ToolCallFailed toolName e) history ?failed
         = (Err AllAlternativesFailed, st')"
      using tool_recovery_fails [of step a tm ?start toolName e st1 history ?failed] by blast
    with h have "execute_loop a n i (Some step # rest) result c history st0
                   = (Err (StepFailed (i + 1) (ToolCallFailed toolName e) AllAlternativesFailed), st')"
      by (intro loop_unrecovered [of a step i st0 _ st1]) simp_all
    then show "\<exists>st'. execute_loop a n i (Some step # rest) result c history st0
                  = (Err (StepFailed (i + 1) (ToolCallFailed toolName e) AllAlternativesFailed), st')"
      by blast
  next
    assume h: "Action step = ''rag_search'' \<and> ragEngine a = Some engine
      \<and> executeStep a step ?start = (Err (RagSearchFailed e), st1)
      \<and> get_string (Parameters step) ''query'' = Some q
      \<and> (\<forall>alt\<in>set (generateAlternativeQueries a q history).
            \<forall>w. (\<exists>e' w'. Search engine alt 3 w = (Inl e', w'))
                \<or> (\<exists>w'. Search engine alt 3 w = (Inr [], w')))"
    then obtain st' where
      "recoverFromError a step (RagSearchFailed e) history ?failed
         = (Err AllAlternativeQueriesFailed, st')"
      using rag_recovery_fails [of step a engine q history e ?failed] by blast
    with h have "execute_loop a n i (Some step # rest) result c history st0
                   = (Err (StepFailed (i + 1) (RagSearchFailed e) AllAlternativeQueriesFailed), st')"
      by (intro loop_unrecovered [of a step i st0 _ st1]) simp_all
    then show "\<exists>st'. execute_loop a n i (Some step # rest) result c history st0
                  = (Err (StepFailed (i + 1) (RagSearchFailed e) AllAlternativeQueriesFailed), st')"
      by blast
  next
    assume h: "Action step = ''reason'' \<and> model a = Some generate
      \<and> executeStep a step ?start = (Err (ReasonFailed e), st1)
      \<and> get_string (Parameters step) ''prompt'' = Some p
      \<and> (\<forall>w. \<exists>e' w'. generate (ReasonRecoveryPrompt history p) w = (Inl e', w'))"
    then obtain e' st' where
      "recoverFromError a step (ReasonFailed e) history ?failed = (Err (RecoverReasonFailed e'), st')"
      using reason_recovery_fails [of step a generate p history e ?failed] by blast
    with h have "execute_loop a n i (Some step # rest) result c history st0
                   = (Err (StepFailed (i + 1) (ReasonFailed e) (RecoverReasonFailed e')), st')"
      by (intro loop_unrecovered [of a step i st0 _ st1]) simp_all
    then show "\<exists>e' st'. execute_loop a n i (Some step # rest) result c history st0
                  = (Err (StepFailed (i + 1) (ReasonFailed e) (RecoverReasonFailed e')), st')"
      by blast
  next
    assume h: "model a = Some generate
      \<and> executeStep a step ?start = (Err err, st1)
      \<and> \<not> backend_failure err
      \<and> (\<forall>w. \<exists>e' w'. generate (DefaultRecoveryPrompt (step_error_text err) history) w = (Inl e', w'))"
    then obtain e' st' where
      "recoverFromError a step err history ?failed = (Err (DefaultRecoveryFailed e'), st')"
      using default_recovery_fails [of a step ?start err st1 generate history ?failed] by blast
    with h have "execute_loop a n i (Some step # rest) result c history st0
                   = (Err (StepFailed (i + 1) err (DefaultRecoveryFailed e')), st')"
      by (intro loop_unrecovered [of a step i st0 _ st1]) simp_all
    then show "\<exists>e' st'. execute_loop a n i (Some step # rest) result c history st0
                  = (Err (StepFailed (i + 1) err (DefaultRecoveryFailed e')), st')"
      by blast
  next
    assume "continuing_passes a k 0 goal (sendEvent a EvStart StatusThinking NoData st4) = Some (query, st5)
      \<and> int k < MaxIterations a
      \<and> think a query (int k + 1) (sendEvent a (EvThink (int k + 1)) StatusThinking NoData st5)
          = (Ok plan, st6)
      \<and> execute a plan
           (sendEvent a (EvExecute (int k + 1)) StatusExecuting (PlanData plan)
              (sendEvent a (EvPlan (int k + 1)) StatusPlanning (PlanData plan) st6))
          = (Err (StepFailed j serr rerr), st7)"
    then show "Execute a goal st4
          = (Err (ExecuteStageFailed (StepFailed j serr rerr)),
             sendEvent a EvError StatusError NoData st7)"
      by (intro Execute_execute_fails [of a k goal st4 query st5 plan st6]) simp_all
  }
qed

text \<open>The theorem at a tool that fails once and then answers, at a tool and a retrieval
  engine that always fail, at a model that fails at every recovery prompt (for a reason
  step and for a step with an unknown action), and at the whole run of an agent whose tool
  always fails.\<close>

theorem recovery_result_or_composed_error_witness:
  "fst (execute_loop (stubborn_agent flaky_tools) 1 0 [Some search_step] [] False []
          \<lparr>world = 1, broadcast = []\<rparr>) = Ok (''found weather'', False)
   \<and> fst (execute_loop (stubborn_agent broken_tools) 1 0 [Some search_step] [] False []
              \<lparr>world = 1, broadcast = []\<rparr>)
       = Err (StepFailed 1 (ToolCallFailed ''web_search'' ''timeout'') AllAlternativesFailed)
   \<and> fst (execute_loop (stubborn_agent broken_tools) 1 0 [Some lookup_step] [] False []
              \<lparr>world = 1, broadcast = []\<rparr>)
       = Err (StepFailed 1 (RagSearchFailed ''index offline'') AllAlternativeQueriesFailed)
   \<and> (\<exists>e'. fst (execute_loop (stubborn_agent broken_tools) 1 0 [Some reason_step] [] False []
                    \<lparr>world = 1, broadcast = []\<rparr>)
             = Err (StepFailed 1 (ReasonFailed ''model down'') (RecoverReasonFailed e')))
   \<and> (\<exists>e'. fst (execute_loop (stubborn_agent broken_tools) 1 0 [Some dance_step] [] False []
                    \<lparr>world = 1, broadcast = []\<rparr>)
             = Err (StepFailed 1 (UnknownStepAction ''dance'') (DefaultRecoveryFailed e')))
   \<and> fst (execute_loop failing_agent 1 0 [Some reason_step] [] False []
              \<lparr>world = 1, broadcast = []\<rparr>)
       = Err (StepFailed 1 (ReasonFailed ''model down'') (RecoverReasonFailed ''still down''))
   \<and> fst (Execute (stubborn_agent broken_tools) ''weather'' start_state)
       = Err (ExecuteStageFailed
               (StepFailed 1 (ToolCallFailed ''web_search'' ''timeout'') AllAlternativesFailed))"
proof -
  let ?s1 = "\<lparr>world = 1, broadcast = []\<rparr> :: nat state"
  let ?F = "stubborn_agent flaky_tools"
  let ?B = "stubborn_agent broken_tools"
  let ?tf = "ToolCallFailed ''web_search'' ''timeout''"
  have tmF: "toolManager ?F = Some flaky_tools" by (simp add: stubborn_agent_def)
  have tmB: "toolManager ?B = Some broken_tools" by (simp add: stubborn_agent_def)
  have enB: "ragEngine ?B = Some broken_engine" by (simp add: stubborn_agent_def)
  have mB: "model ?B = Some (thinking_only search_text)" by (simp add: stubborn_agent_def)
  have act: "Action search_step = ''search_tool''" by (simp add: search_step_def)
  have inp: "get_string (Parameters search_step) ''input'' = Some ''weather''"
    by (simp add: search_step_def get_string_def)

  txt \<open>The tool fails once; the recovery calls it again and the loop goes on with the result.\<close>
  let ?xF = "executeStep ?F search_step
               (sendEvent ?F (EvStepStart (0 + 1)) StatusExecuting (StepData search_step) ?s1)"
  let ?fF = "sendEvent ?F (EvStepError (0 + 1)) StatusError NoData (snd ?xF)"
  have "fst ?xF = Err ?tf" by code_simp
  then have xF: "?xF = (Err ?tf, snd ?xF)" by (simp add: prod_eq_iff)
  have "world ?fF = 2" by code_simp
  then have callF: "ExecuteTool flaky_tools ''web_search'' ''weather'' (world ?fF)
                      = (Inr ''found weather'', 3)"
    by (simp add: flaky_tools_def)
  have rF: "recoverFromError ?F search_step ?tf [] ?fF = (Ok ''found weather'', ?fF\<lparr>world := 3\<rparr>)"
    using recovery_result_or_composed_error [where a = ?F and step = search_step
        and tm = flaky_tools and st = "sendEvent ?F (EvStepStart (0 + 1)) StatusExecuting
                                          (StepData search_step) ?s1"
        and toolName = "''web_search''" and e = "''timeout''" and ?st1.0 = "snd ?xF"
        and input = "''weather''" and ?st3.0 = ?fF and retried = "''found weather''" and ?w3.0 = 3
        and history = "[]", THEN conjunct2, THEN conjunct2, THEN conjunct1]
      act tmF xF inp callF by blast
  have 1: "fst (execute_loop ?F 1 0 [Some search_step] [] False [] ?s1) = Ok (''found weather'', False)"
    using recovery_result_or_composed_error [where a = ?F and step = search_step and i = 0
        and ?st0.0 = ?s1 and err = ?tf and ?st1.0 = "snd ?xF" and history = "[]"
        and recovered = "''found weather''" and ?st2.0 = "?fF\<lparr>world := 3\<rparr>"
        and n = 1 and rest = "[]" and result = "[]" and c = False, THEN conjunct1] xF rF
    by (simp add: search_step_def)

  txt \<open>The tool always fails.\<close>
  let ?xB = "executeStep ?B search_step
               (sendEvent ?B (EvStepStart (0 + 1)) StatusExecuting (StepData search_step) ?s1)"
  have "fst ?xB = Err ?tf" by code_simp
  then have xB: "?xB = (Err ?tf, snd ?xB)" by (simp add: prod_eq_iff)
  have allB: "\<forall>input\<in>set (generateAlternativeInputs search_step []).
                \<forall>w. \<exists>e' w'. ExecuteTool broken_tools ''web_search'' input w = (Inl e', w')"
    by (simp add: broken_tools_def)
  have "\<exists>st'. execute_loop ?B 1 0 (Some search_step # []) [] False [] ?s1
                = (Err (StepFailed (0 + 1) ?tf AllAlternativesFailed), st')"
    using recovery_result_or_composed_error [where a = ?B and step = search_step and i = 0
        and ?st0.0 = ?s1 and tm = broken_tools and toolName = "''web_search''"
        and e = "''timeout''" and ?st1.0 = "snd ?xB" and history = "[]"
        and n = 1 and rest = "[]" and result = "[]" and c = False,
        THEN conjunct2, THEN conjunct2, THEN conjunct2, THEN conjunct1]
      act tmB xB allB by blast
  then have 2: "fst (execute_loop ?B 1 0 [Some search_step] [] False [] ?s1)
                  = Err (StepFailed 1 ?tf AllAlternativesFailed)"
    by auto

  txt \<open>The retrieval engine always fails.\<close>
  let ?xL = "executeStep ?B lookup_step
               (sendEvent ?B (EvStepStart (0 + 1)) StatusExecuting (StepData lookup_step) ?s1)"
  have actL: "Action lookup_step = ''rag_search''" by (simp add: lookup_step_def)
  have qL: "get_string (Parameters lookup_step) ''query'' = Some ''weather in Paris''"
    by (simp add: lookup_step_def get_string_def)
  have "fst ?xL = Err (RagSearchFailed ''index offline'')" by code_simp
  then have xL: "?xL = (Err (RagSearchFailed ''index offline''), snd ?xL)" by (simp add: prod_eq_iff)
  have allL: "\<forall>alt\<in>set (generateAlternativeQueries ?B ''weather in Paris'' []).
                \<forall>w. (\<exists>e' w'. Search broken_engine alt 3 w = (Inl e', w'))
                    \<or> (\<exists>w'. Search broken_engine alt 3 w = (Inr [], w'))"
    by (simp add: broken_engine_def)
  have "\<exists>st'. execute_loop ?B 1 0 (Some lookup_step # []) [] False [] ?s1
                = (Err (StepFailed (0 + 1) (RagSearchFailed ''index offline'')
                          AllAlternativeQueriesFailed), st')"
    using recovery_result_or_composed_error [where a = ?B and step = lookup_step and i = 0
        and ?st0.0 = ?s1 and engine = broken_engine and e = "''index offline''"
        and ?st1.0 = "snd ?xL" and q = "''weather in Paris''" and history = "[]"
        and n = 1 and rest = "[]" and result = "[]" and c = False,
        THEN conjunct2, THEN conjunct2, THEN conjunct2, THEN conjunct2, THEN conjunct1]
      actL enB xL qL allL by blast
  then have 3: "fst (execute_loop ?B 1 0 [Some lookup_step] [] False [] ?s1)
                  = Err (StepFailed 1 (RagSearchFailed ''index offline'') AllAlternativeQueriesFailed)"
    by auto

  txt \<open>The model fails at the reason step and at its recovery prompt.\<close>
  let ?xR = "executeStep ?B reason_step
               (sendEvent ?B (EvStepStart (0 + 1)) StatusExecuting (StepData reason_step) ?s1)"
  have actR: "Action reason_step = ''reason''" by (simp add: reason_step_def)
  have pR: "get_string (Parameters reason_step) ''prompt'' = Some ''2+2''"
    by (simp add: reason_step_def get_string_def)
  have "fst ?xR = Err (ReasonFailed ''model down'')" by code_simp
  then have xR: "?xR = (Err (ReasonFailed ''model down''), snd ?xR)" by (simp add: prod_eq_iff)
  have allR: "\<forall>w. \<exists>e' w'. thinking_only search_text (ReasonRecoveryPrompt [] ''2+2'') w = (Inl e', w')"
    by simp
  have "\<exists>e' st'. execute_loop ?B 1 0 (Some reason_step # []) [] False [] ?s1
                = (Err (StepFailed (0 + 1) (ReasonFailed ''model down'') (RecoverReasonFailed e')), st')"
    using recovery_result_or_composed_error [where a = ?B and step = reason_step and i = 0
        and ?st0.0 = ?s1 and generate = "thinking_only search_text" and e = "''model down''"
        and ?st1.0 = "snd ?xR" and p = "''2+2''" and history = "[]"
        and n = 1 and rest = "[]" and result = "[]" and c = False,
        THEN conjunct2, THEN conjunct2, THEN conjunct2, THEN conjunct2, THEN conjunct2,
        THEN conjunct1]
      actR mB xR pR allR by blast
  then have 4: "\<exists>e'. fst (execute_loop ?B 1 0 [Some reason_step] [] False [] ?s1)
                  = Err (StepFailed 1 (ReasonFailed ''model down'') (RecoverReasonFailed e'))"
    by auto

  txt \<open>The engine does not know the action; the model fails at the default recovery prompt.\<close>
  let ?xD = "executeStep ?B dance_step
               (sendEvent ?B (EvStepStart (0 + 1)) StatusExecuting (StepData dance_step) ?s1)"
  have "fst ?xD = Err (UnknownStepAction ''dance'')" by code_simp
  then have xD: "?xD = (Err (UnknownStepAction ''dance''), snd ?xD)" by (simp add: prod_eq_iff)
  have nb: "\<not> backend_failure (UnknownStepAction ''dance'')" by simp
  have allD: "\<forall>w. \<exists>e' w'. thinking_only search_text
                (DefaultRecoveryPrompt (step_error_text (UnknownStepAction ''dance'')) []) w = (Inl e', w')"
    by simp
  have "\<exists>e' st'. execute_loop ?B 1 0 (Some dance_step # []) [] False [] ?s1
                = (Err (StepFailed (0 + 1) (UnknownStepAction ''dance'') (DefaultRecoveryFailed e')), st')"
    using recovery_result_or_composed_error [where a = ?B and step = dance_step and i = 0
        and ?st0.0 = ?s1 and generate = "thinking_only search_text"
        and err = "UnknownStepAction ''dance''"
        and ?st1.0 = "snd ?xD" and history = "[]"
        and n = 1 and rest = "[]" and result = "[]" and c = False,
        THEN conjunct2, THEN conjunct2, THEN conjunct2, THEN conjunct2, THEN conjunct2,
        THEN conjunct2, THEN conjunct1]
      mB xD nb allD by blast
  then have 5: "\<exists>e'. fst (execute_loop ?B 1 0 [Some dance_step] [] False [] ?s1)
                  = Err (StepFailed 1 (UnknownStepAction ''dance'') (DefaultRecoveryFailed e'))"
    by auto

  txt \<open>A scripted model that fails at the reason step and at the recovery prompt.\<close>
  let ?e = "executeStep failing_agent reason_step
              (sendEvent failing_agent (EvStepStart (0 + 1)) StatusExecuting (StepData reason_step) ?s1)"
  have "fst ?e = Err (ReasonFailed ''model down'')" by code_simp
  then have e: "?e = (Err (ReasonFailed ''model down''), snd ?e)" by (simp add: prod_eq_iff)
  let ?r = "recoverFromError failing_agent reason_step (ReasonFailed ''model down'') []
              (sendEvent failing_agent (EvStepError (0 + 1)) StatusError NoData (snd ?e))"
  have "fst ?r = Err (RecoverReasonFailed ''still down'')" by code_simp
  then have r: "?r = (Err (RecoverReasonFailed ''still down''), snd ?r)" by (simp add: prod_eq_iff)
  have 6: "fst (execute_loop failing_agent 1 0 [Some reason_step] [] False [] ?s1)
       = Err (StepFailed 1 (ReasonFailed ''model down'') (RecoverReasonFailed ''still down''))"
    using recovery_result_or_composed_error [where a = failing_agent and step = reason_step
        and i = 0 and history = "[]" and ?st0.0 = ?s1 and err = "ReasonFailed ''model down''"
        and ?st1.0 = "snd ?e" and recoverErr = "RecoverReasonFailed ''still down''"
        and ?st2.0 = "snd ?r" and n = 1 and rest = "[]" and result = "[]" and c = False,
        THEN conjunct2, THEN conjunct1] e r
    by simp

  txt \<open>The whole run.\<close>
  let ?q = "''weather''"
  let ?s0 = "sendEvent ?B EvStart StatusThinking NoData start_state"
  let ?t = "think ?B ?q (int 0 + 1) (sendEvent ?B (EvThink (int 0 + 1)) StatusThinking NoData ?s0)"
  let ?x = "execute ?B search_plan
              (sendEvent ?B (EvExecute (int 0 + 1)) StatusExecuting (PlanData search_plan)
                 (sendEvent ?B (EvPlan (int 0 + 1)) StatusPlanning (PlanData search_plan)
                    (snd ?t)))"
  have p: "continuing_passes ?B 0 0 ?q ?s0 = Some (?q, ?s0)" by simp
  have b: "int 0 < MaxIterations ?B" by (simp add: stubborn_agent_def)
  have "fst ?t = Ok search_plan" by code_simp
  then have t: "?t = (Ok search_plan, snd ?t)" by (simp add: prod_eq_iff)
  have "fst ?x = Err (StepFailed 1 ?tf AllAlternativesFailed)" by code_simp
  then have x: "?x = (Err (StepFailed 1 ?tf AllAlternativesFailed), snd ?x)"
    by (simp add: prod_eq_iff)
  have 7: "fst (Execute ?B ?q start_state)
       = Err (ExecuteStageFailed (StepFailed 1 ?tf AllAlternativesFailed))"
    using recovery_result_or_composed_error [where a = ?B and k = 0 and goal = ?q
        and ?st4.0 = start_state and query = ?q and ?st5.0 = ?s0 and plan = search_plan
        and ?st6.0 = "snd ?t" and j = 1 and serr = ?tf
        and rerr = AllAlternativesFailed and ?st7.0 = "snd ?x",
        THEN conjunct2, THEN conjunct2, THEN conjunct2, THEN conjunct2, THEN conjunct2,
        THEN conjunct2, THEN conjunct2] p b t x
    by simp
  from 1 2 3 4 5 6 7 show ?thesis by simp
qed

subsection \<open>A full queue drops the event for its subscriber only\<close>

lemma Send_connected:
  "connected c \<Longrightarrow> Send pick c bytes = (Ok (length (events c) < 100), deliver c bytes)"
  by (simp add: connected_def Send_def deliver_def)

lemma exec_Fire_connected:
  assumes "\<not> panicked s" and "tasks s = (a, bytes) # ts" and "a < length (heap s)"
    and "connected (heap s ! a)"
  shows "exec (Fire 0 pick) s = s\<lparr>heap := (heap s)[a := deliver (heap s ! a) bytes], tasks := ts\<rparr>"
  using assms by (simp add: exec_def Send_connected remove_nth_def)

lemma fire_all:
  "\<not> panicked s \<Longrightarrow> tasks s = ts \<Longrightarrow> length picks = length ts \<Longrightarrow> distinct (map fst ts) \<Longrightarrow>
   (\<forall>(a, bytes) \<in> set ts. a < length (heap s) \<and> connected (heap s ! a)) \<Longrightarrow>
   tasks (run_ops (map (Fire 0) picks) s) = []
   \<and> \<not> panicked (run_ops (map (Fire 0) picks) s)
   \<and> streams (run_ops (map (Fire 0) picks) s) = streams s
   \<and> length (heap (run_ops (map (Fire 0) picks) s)) = length (heap s)
   \<and> (\<forall>x < length (heap s).
         heap (run_ops (map (Fire 0) picks) s) ! x
           = (case map_of ts x of None \<Rightarrow> heap s ! x | Some bytes \<Rightarrow> deliver (heap s ! x) bytes))"
proof (induction picks arbitrary: s ts)
  case Nil
  then show ?case by simp
next
  case (Cons pick picks)
  from Cons.prems(3) obtain a bytes ts' where ts: "ts = (a, bytes) # ts'"
    by (cases ts) auto
  from Cons.prems ts have a: "a < length (heap s)" "connected (heap s ! a)" by auto
  let ?s1 = "s\<lparr>heap := (heap s)[a := deliver (heap s ! a) bytes], tasks := ts'\<rparr>"
  have step: "exec (Fire 0 pick) s = ?s1"
    using Cons.prems(1,2) ts a by (intro exec_Fire_connected) simp_all
  from Cons.prems(4) ts have fresh: "a \<notin> fst ` set ts'" and d: "distinct (map fst ts')"
    by simp_all
  have others: "\<forall>(a', bytes') \<in> set ts'. a' < length (heap ?s1) \<and> connected (heap ?s1 ! a')"
  proof (intro ballI, clarify)
    fix a' bytes'
    assume m: "(a', bytes') \<in> set ts'"
    with fresh have "a' \<noteq> a" by force
    with m Cons.prems(5) ts show "a' < length (heap ?s1) \<and> connected (heap ?s1 ! a')"
      by auto
  qed
  have p1: "\<not> panicked ?s1" using Cons.prems(1) by simp
  have l: "length picks = length ts'" using Cons.prems(3) ts by simp
  note IH = Cons.IH [of ?s1 ts', OF p1 _ l d others, simplified]
  have none: "map_of ts' a = None" using fresh by (simp add: map_of_eq_None_iff)
  have run: "run_ops (map (Fire 0) (pick # picks)) s = run_ops (map (Fire 0) picks) ?s1"
    by (simp add: step)
  show ?case
    unfolding run
  proof (intro conjI allI impI)
    fix x
    assume x: "x < length (heap s)"
    show "heap (run_ops (map (Fire 0) picks) ?s1) ! x
            = (case map_of ts x of None \<Rightarrow> heap s ! x | Some bytes \<Rightarrow> deliver (heap s ! x) bytes)"
    proof (cases "x = a")
      case True
      with IH x none ts show ?thesis by (simp split: option.split)
    next
      case False
      with IH x ts show ?thesis by (simp split: option.split)
    qed
  qed (use IH in simp_all)
qed

lemma map_of_tasks:
  "distinct (map snd cs) \<Longrightarrow> (cid, a) \<in> set cs \<Longrightarrow>
   map_of (map (\<lambda>(k, a). (a, bytes)) cs) a = Some bytes"
  by (induction cs) (auto split: prod.splits)

lemma publish_and_fire:
  assumes quiet: "\<not> panicked s" "\<not> stopped s" "tasks s = []" "inbox s = []"
    and map_ok: "distinct (map snd (clients s))"
      "\<forall>(k, a') \<in> set (clients s). a' < length (heap s) \<and> connected (heap s ! a')"
    and bytes: "serializeEvent \<lparr>sseID = now, sseEvent = eventType, sseData = data, sseRetry = 5000\<rparr>
                  = Some bytes"
    and picks: "length picks = length (clients s)"
    and sub: "(cid, a) \<in> set (clients s)"
  shows "heap (run_ops (Publish now eventType data # Dispatch # map (Fire 0) picks) s) ! a
           = deliver (heap s ! a) bytes"
proof -
  let ?ts = "map (\<lambda>(k, a). (a, bytes)) (clients s)"
  let ?s2 = "s\<lparr>inbox := [], tasks := ?ts\<rparr>"
  have two: "exec Dispatch (exec (Publish now eventType data) s) = ?s2"
    using quiet bytes by (simp add: exec_def Broadcast_def)
  have fst_ts: "map fst ?ts = map snd (clients s)" by (induction "clients s") auto
  have d: "distinct (map fst ?ts)" unfolding fst_ts by (rule map_ok(1))
  have v: "\<forall>(a', b) \<in> set ?ts. a' < length (heap ?s2) \<and> connected (heap ?s2 ! a')"
    using map_ok(2) by auto
  have a: "a < length (heap s)" using sub map_ok(2) by auto
  have "heap (run_ops (map (Fire 0) picks) ?s2) ! a
          = (case map_of ?ts a of None \<Rightarrow> heap ?s2 ! a | Some b \<Rightarrow> deliver (heap ?s2 ! a) b)"
    using fire_all [of ?s2 ?ts picks] quiet(1) picks d v a by simp
  also have "\<dots> = deliver (heap s ! a) bytes"
    using map_of_tasks [OF map_ok(1) sub, of bytes] by simp
  finally show ?thesis by (simp add: two)
qed

text \<open>
  C7: a send to a connected subscriber whose queue holds 100 events returns \<open>false\<close> and
  leaves the subscriber as it is: the event is dropped (first part); with room in the
  queue the event is queued (second part). The send goroutine of one subscriber changes
  no other subscriber's queue and nothing that has been written (third part).
  \<open>Broadcast\<close> returns in every state and changes nothing but the broker's own channel,
  to which it adds the event unless that channel is full: it neither fails nor waits for
  a subscriber (fourth part). Together: when an event is published and dispatched to
  connected subscribers and the send goroutines run, every subscriber with room in its
  queue gets the event and every subscriber with a full queue keeps its queue, whatever
  the queues of the others hold (fifth part).
\<close>

theorem full_queue_drops_for_its_subscriber_only:
  "(connected c \<and> 100 \<le> length (events c) \<longrightarrow> Send pick c bytes = (Ok False, c))
   \<and> (connected c \<and> length (events c) < 100
        \<longrightarrow> Send pick c bytes = (Ok True, c\<lparr>events := events c @ [bytes]\<rparr>))
   \<and> (x \<noteq> fst (tasks s ! k)
        \<longrightarrow> heap (exec (Fire k pick) s) ! x = heap s ! x
            \<and> streams (exec (Fire k pick) s) = streams s)
   \<and> exec (Publish now eventType data) s
        = (if panicked s \<or> 1000 \<le> length (inbox s) then s
           else s\<lparr>inbox := inbox s
                    @ [\<lparr>sseID = now, sseEvent = eventType, sseData = data, sseRetry = 5000\<rparr>]\<rparr>)
   \<and> (\<not> panicked s \<and> \<not> stopped s \<and> tasks s = [] \<and> inbox s = []
      \<and> distinct (map snd (clients s))
      \<and> (\<forall>(k, a') \<in> set (clients s). a' < length (heap s) \<and> connected (heap s ! a'))
      \<and> serializeEvent \<lparr>sseID = now, sseEvent = eventType, sseData = data, sseRetry = 5000\<rparr>
           = Some bytes
      \<and> length picks = length (clients s)
      \<and> (cid, a) \<in> set (clients s)
    \<longrightarrow> heap (run_ops (Publish now eventType data # Dispatch # map (Fire 0) picks) s) ! a
          = (if length (events (heap s ! a)) < 100
             then (heap s ! a)\<lparr>events := events (heap s ! a) @ [bytes]\<rparr>
             else heap s ! a))"
proof (intro conjI impI)
  assume "connected c \<and> 100 \<le> length (events c)"
  then show "Send pick c bytes = (Ok False, c)"
    by (simp add: Send_connected deliver_def)
next
  assume "connected c \<and> length (events c) < 100"
  then show "Send pick c bytes = (Ok True, c\<lparr>events := events c @ [bytes]\<rparr>)"
    by (simp add: Send_connected deliver_def)
next
  assume "x \<noteq> fst (tasks s ! k)"
  then show "heap (exec (Fire k pick) s) ! x = heap s ! x"
    by (simp add: exec_def split: prod.split outcome.split)
next
  show "streams (exec (Fire k pick) s) = streams s"
    by (simp add: exec_def split: prod.split outcome.split)
next
  show "exec (Publish now eventType data) s
        = (if panicked s \<or> 1000 \<le> length (inbox s) then s
           else s\<lparr>inbox := inbox s
                    @ [\<lparr>sseID = now, sseEvent = eventType, sseData = data, sseRetry = 5000\<rparr>]\<rparr>)"
    by (simp add: exec_def Broadcast_def)
next
  assume h: "\<not> panicked s \<and> \<not> stopped s \<and> tasks s = [] \<and> inbox s = []
      \<and> distinct (map snd (clients s))
      \<and> (\<forall>(k, a') \<in> set (clients s). a' < length (heap s) \<and> connected (heap s ! a'))
      \<and> serializeEvent \<lparr>sseID = now, sseEvent = eventType, sseData = data, sseRetry = 5000\<rparr>
           = Some bytes
      \<and> length picks = length (clients s)
      \<and> (cid, a) \<in> set (clients s)"
  then have "heap (run_ops (Publish now eventType data # Dispatch # map (Fire 0) picks) s) ! a
               = deliver (heap s ! a) bytes"
    by (intro publish_and_fire [of s now eventType data bytes picks cid a]) simp_all
  then show "heap (run_ops (Publish now eventType data # Dispatch # map (Fire 0) picks) s) ! a
          = (if length (events (heap s ! a)) < 100
             then (heap s ! a)\<lparr>events := events (heap s ! a) @ [bytes]\<rparr>
             else heap s ! a)"
    by (simp add: deliver_def)
qed

text \<open>The theorem at the two subscribers of \<open>crowded\<close>: an event is published and
  dispatched and both send goroutines run; the full queue is as before and the empty
  queue holds the event.\<close>

theorem full_queue_drops_for_its_subscriber_only_witness:
  "Send True (heap crowded ! 0) (agent_bytes ''1003'' ''42'') = (Ok False, heap crowded ! 0)
   \<and> fst (Send True (heap crowded ! 1) (agent_bytes ''1003'' ''42'')) = Ok True
   \<and> events (heap (run_ops [Publish ''1003'' ''agent'' (Some ''42''), Dispatch,
                              Fire 0 True, Fire 0 True] crowded) ! 0)
       = replicate 100 ''old''
   \<and> events (heap (run_ops [Publish ''1003'' ''agent'' (Some ''42''), Dispatch,
                              Fire 0 True, Fire 0 True] crowded) ! 1)
       = [agent_bytes ''1003'' ''42'']
   \<and> heap (exec (Fire 0 True) (exec Dispatch (exec (Publish ''1003'' ''agent'' (Some ''42'')) crowded))) ! 1
       = heap crowded ! 1
   \<and> inbox (exec (Publish ''1003'' ''agent'' (Some ''42'')) crowded)
       = [\<lparr>sseID = ''1003'', sseEvent = ''agent'', sseData = Some ''42'', sseRetry = 5000\<rparr>]"
proof -
  let ?b = "agent_bytes ''1003'' ''42''"
  let ?ops = "Publish ''1003'' ''agent'' (Some ''42'') # Dispatch # map (Fire 0) [True, True]"
  let ?s2 = "exec Dispatch (exec (Publish ''1003'' ''agent'' (Some ''42'')) crowded)"
  have c0: "connected (heap crowded ! 0) \<and> 100 \<le> length (events (heap crowded ! 0))"
    by (simp add: crowded_def connected_def)
  have c1: "connected (heap crowded ! 1) \<and> length (events (heap crowded ! 1)) < 100"
    by (simp add: crowded_def connected_def)
  have 1: "Send True (heap crowded ! 0) ?b = (Ok False, heap crowded ! 0)"
    using full_queue_drops_for_its_subscriber_only [where c = "heap crowded ! 0" and pick = True
        and bytes = ?b, THEN conjunct1] c0 by blast
  have 2: "fst (Send True (heap crowded ! 1) ?b) = Ok True"
    using full_queue_drops_for_its_subscriber_only [where c = "heap crowded ! 1" and pick = True
        and bytes = ?b, THEN conjunct2, THEN conjunct1] c1 by simp
  have quiet: "\<not> panicked crowded \<and> \<not> stopped crowded \<and> tasks crowded = [] \<and> inbox crowded = []
      \<and> distinct (map snd (clients crowded))
      \<and> (\<forall>(k, a') \<in> set (clients crowded). a' < length (heap crowded) \<and> connected (heap crowded ! a'))"
    by (simp add: crowded_def connected_def)
  have ser: "serializeEvent \<lparr>sseID = ''1003'', sseEvent = ''agent'', sseData = Some ''42'', sseRetry = 5000\<rparr>
               = Some ?b"
    by code_simp
  have len: "length [True, True] = length (clients crowded)" by (simp add: crowded_def)
  have m0: "(''slow'', 0) \<in> set (clients crowded)" and m1: "(''fast'', 1) \<in> set (clients crowded)"
    by (simp_all add: crowded_def)
  have 3: "heap (run_ops ?ops crowded) ! 0 = heap crowded ! 0"
    using full_queue_drops_for_its_subscriber_only [where s = crowded and now = "''1003''"
        and eventType = "''agent''" and data = "Some ''42''" and bytes = ?b
        and picks = "[True, True]" and cid = "''slow''" and a = 0,
        THEN conjunct2, THEN conjunct2, THEN conjunct2, THEN conjunct2] quiet ser len m0 c0
    by simp
  have 4: "heap (run_ops ?ops crowded) ! 1
             = (heap crowded ! 1)\<lparr>events := events (heap crowded ! 1) @ [?b]\<rparr>"
    using full_queue_drops_for_its_subscriber_only [where s = crowded and now = "''1003''"
        and eventType = "''agent''" and data = "Some ''42''" and bytes = ?b
        and picks = "[True, True]" and cid = "''fast''" and a = 1,
        THEN conjunct2, THEN conjunct2, THEN conjunct2, THEN conjunct2] quiet ser len m1 c1
    by simp
  have t: "fst (tasks ?s2 ! 0) = 0" by code_simp
  have 5: "heap (exec (Fire 0 True) ?s2) ! 1 = heap ?s2 ! 1"
    using full_queue_drops_for_its_subscriber_only [where s = ?s2 and k = 0 and x = 1
        and pick = True, THEN conjunct2, THEN conjunct2, THEN conjunct1] t
    by simp
  have h2: "heap ?s2 = heap crowded" by (simp add: exec_def crowded_def Broadcast_def ser)
  have 6: "inbox (exec (Publish ''1003'' ''agent'' (Some ''42'')) crowded)
       = [\<lparr>sseID = ''1003'', sseEvent = ''agent'', sseData = Some ''42'', sseRetry = 5000\<rparr>]"
    using full_queue_drops_for_its_subscriber_only [where s = crowded and now = "''1003''"
        and eventType = "''agent''" and data = "Some ''42''",
        THEN conjunct2, THEN conjunct2, THEN conjunct2, THEN conjunct1]
    by (simp add: crowded_def)
  from 1 2 3 4 5 6 h2 show ?thesis by (simp add: crowded_def)
qed

subsection \<open>Order of delivery\<close>

lemma events_Close [simp]: "events (snd (Close c)) = events c"
  by (simp add: Close_def)

lemma events_Closed: "Close c = (r, c') \<Longrightarrow> events c' = events c"
  using events_Close [of c] by simp

lemma close_all_length [simp]: "length (snd (close_all as h)) = length h"
  by (induction as arbitrary: h) (simp_all split: prod.split outcome.split)

lemma close_all_length': "close_all as h = (p, h') \<Longrightarrow> length h' = length h"
  using close_all_length [of as h] by simp

lemma close_all_events: "x < length h \<Longrightarrow> events (snd (close_all as h) ! x) = events (h ! x)"
proof (induction as arbitrary: h)
  case Nil
  then show ?case by simp
next
  case (Cons a as)
  show ?case
  proof (cases "a < length h")
    case False
    with Cons show ?thesis by simp
  next
    case True
    obtain r c where rc: "Close (h ! a) = (r, c)" by (cases "Close (h ! a)")
    then have c: "events c = events (h ! a)" using events_Close [of "h ! a"] by simp
    have upd: "events (h[a := c] ! x) = events (h ! x)"
      using c Cons.prems by (cases "x = a") simp_all
    have "x < length (h[a := c])" using Cons.prems by simp
    from Cons.IH [OF this] upd have "events (snd (close_all as (h[a := c])) ! x) = events (h ! x)"
      by simp
    with True rc upd show ?thesis by (cases r) simp_all
  qed
qed

lemma wire_subseq: "subseq xs ys \<Longrightarrow> subseq (wire xs) (wire ys)"
  by (simp add: wire_def map_filter_def subseq_map subseq_filter)

lemma published_Cons:
  "published (operation # operations) = published [operation] @ published operations"
  by (cases operation) simp_all

lemma exec_lengths:
  "length (heap s) \<le> length (heap (exec operation s))
   \<and> length (streams s) \<le> length (streams (exec operation s))"
proof (cases operation)
  case Shutdown
  obtain p h where ph: "close_all (map snd (clients s)) (heap s) = (p, h)"
    by (cases "close_all (map snd (clients s)) (heap s)")
  from close_all_length' [OF ph] ph Shutdown show ?thesis
    by (cases p) (simp_all add: exec_def)
qed (simp_all add: exec_def Broadcast_def Let_def
       split: option.split list.split prod.split outcome.split)

lemma received_exec:
  assumes a: "a < length (heap s)" "a < length (streams s)"
  shows "prefix (received s a) (received (exec operation s) a)"
proof (cases "panicked s")
  case True
  then show ?thesis by (simp add: exec_def)
next
  case False
  show ?thesis
  proof (cases operation)
    case (Register cid)
    with False a show ?thesis by (simp add: exec_def received_def nth_append)
  next
    case (Unregister cid)
    have "events ((heap s)[x := c] ! a) = events (heap s ! a)"
      if "Close (heap s ! x) = (r, c)" for x r c
      using a events_Closed [OF that] by (cases "x = a") simp_all
    then have "received (exec operation s) a = received s a"
      using False Unregister
      by (auto simp add: exec_def received_def split: option.split prod.split outcome.split)
    then show ?thesis by simp
  next
    case (Publish now eventType data)
    with False show ?thesis by (simp add: exec_def received_def Broadcast_def Let_def)
  next
    case Dispatch
    with False show ?thesis
      by (simp add: exec_def received_def split: list.split option.split)
  next
    case (Fire k pick)
    show ?thesis
    proof (cases "k < length (tasks s) \<and> fst (tasks s ! k) < length (heap s)")
      case no: False
      with False Fire show ?thesis by (auto simp add: exec_def)
    next
      case yes: True
      let ?t = "fst (tasks s ! k)"
      obtain r c where rc: "Send pick (heap s ! ?t) (snd (tasks s ! k)) = (r, c)"
        by (cases "Send pick (heap s ! ?t) (snd (tasks s ! k))")
      then have c: "prefix (events (heap s ! ?t)) (events c)"
        by (auto simp add: Send_def Let_def split: if_splits)
      have "prefix (events (heap s ! a)) (events ((heap s)[?t := c] ! a))"
        using c a by (cases "?t = a") simp_all
      with False Fire yes rc show ?thesis
        by (cases r) (simp_all add: exec_def received_def)
    qed
  next
    case (Write x)
    show ?thesis
    proof (cases "x < length (heap s) \<and> x < length (streams s)")
      case no: False
      with False Write show ?thesis by (auto simp add: exec_def)
    next
      case yes: True
      show ?thesis
      proof (cases "events (heap s ! x)")
        case Nil
        with False Write yes show ?thesis by (simp add: exec_def)
      next
        case (Cons e rest)
        with False Write yes a show ?thesis
          by (cases "x = a") (simp_all add: exec_def received_def)
      qed
    qed
  next
    case Shutdown
    obtain p h where ph: "close_all (map snd (clients s)) (heap s) = (p, h)"
      by (cases "close_all (map snd (clients s)) (heap s)")
    then have "events (h ! a) = events (heap s ! a)"
      using close_all_events [OF a(1), of "map snd (clients s)"] by simp
    with False Shutdown ph show ?thesis
      by (cases p) (simp_all add: exec_def received_def)
  qed
qed

lemma received_run_ops:
  "a < length (heap s) \<Longrightarrow> a < length (streams s) \<Longrightarrow>
   prefix (received s a) (received (run_ops operations s) a)"
proof (induction operations arbitrary: s)
  case Nil
  then show ?case by simp
next
  case (Cons operation operations)
  have 1: "prefix (received s a) (received (exec operation s) a)"
    using Cons.prems by (rule received_exec)
  have "a < length (heap (exec operation s))" "a < length (streams (exec operation s))"
    using Cons.prems exec_lengths [of s operation] by simp_all
  then have "prefix (received (exec operation s) a) (received (run_ops operations (exec operation s)) a)"
    by (rule Cons.IH)
  with 1 show ?case by (simp add: prefix_order.trans)
qed

lemma inv_more_handed: "orderly_inv s D P \<Longrightarrow> orderly_inv s D (P @ X)"
  by (simp add: orderly_inv_def subseq_rev_drop_many)

lemma pending_none:
  "\<forall>(a, bytes) \<in> set (tasks s). a < n \<Longrightarrow> n \<le> x \<Longrightarrow> pending s x = []"
  by (auto simp add: pending_def filter_empty_conv)

lemma inv_Register:
  assumes inv: "orderly_inv s D P" and np: "\<not> panicked s"
  shows "orderly_inv (exec (Register cid) s) D P"
proof (cases "stopped s")
  case True
  with inv np show ?thesis by (simp add: exec_def)
next
  case False
  let ?n = "length (heap s)"
  let ?s' = "s\<lparr>heap := heap s @ [NewClient cid], streams := streams s @ [[]],
               clients := (cid, ?n) # filter (\<lambda>(k, a). k \<noteq> cid) (clients s)\<rparr>"
  have e: "exec (Register cid) s = ?s'" using np False by (simp add: exec_def)
  from inv have i1: "length (streams s) = ?n"
    and i2: "\<forall>(a, bytes) \<in> set (tasks s). a < ?n"
    and i3: "\<forall>(k, a) \<in> set (clients s). a < ?n"
    and i4: "distinct (map snd (clients s))"
    and i5: "subseq (D @ inbox s) P"
    and i6: "\<forall>a < ?n. subseq (received s a @ pending s a) (wire D)"
    and i7: "\<forall>a. length (pending s a) \<le> 1"
    by (simp_all add: orderly_inv_def)
  have p: "pending ?s' a = pending s a" for a by (simp add: pending_def)
  have r_old: "received ?s' a = received s a" if "a < ?n" for a
    using that i1 by (simp add: received_def nth_append)
  have r_new: "received ?s' ?n = []"
    using i1 by (simp add: received_def nth_append NewClient_def)
  have fresh: "?n \<notin> snd ` set (filter (\<lambda>(k, a). k \<noteq> cid) (clients s))"
    using i3 by force
  have d: "distinct (map snd (filter (\<lambda>(k, a). k \<noteq> cid) (clients s)))"
    using i4 by (rule distinct_map_filter)
  have c6: "\<forall>a < length (heap ?s'). subseq (received ?s' a @ pending ?s' a) (wire D)"
  proof (intro allI impI)
    fix a
    assume "a < length (heap ?s')"
    then consider "a < ?n" | "a = ?n" by force
    then show "subseq (received ?s' a @ pending ?s' a) (wire D)"
    proof cases
      case 1
      with i6 show ?thesis by (simp add: p r_old)
    next
      case 2
      with pending_none [OF i2, of ?n] show ?thesis by (simp add: p r_new)
    qed
  qed
  have "orderly_inv ?s' D P"
    unfolding orderly_inv_def
  proof (intro conjI)
    show "length (streams ?s') = length (heap ?s')" using i1 by simp
    show "\<forall>(a, bytes) \<in> set (tasks ?s'). a < length (heap ?s')" using i2 by auto
    show "\<forall>(k, a) \<in> set (clients ?s'). a < length (heap ?s')" using i3 by auto
    show "distinct (map snd (clients ?s'))" using fresh d by simp
    show "subseq (D @ inbox ?s') P" using i5 by simp
    show "\<forall>a < length (heap ?s'). subseq (received ?s' a @ pending ?s' a) (wire D)" by (rule c6)
    show "\<forall>a. length (pending ?s' a) \<le> 1" using i7 by (simp add: p)
  qed
  with e show ?thesis by simp
qed

text \<open>A step that changes only flags of the clients, and shrinks the map.\<close>

lemma inv_closing:
  assumes inv: "orderly_inv s D P"
    and same: "tasks s' = tasks s" "streams s' = streams s" "inbox s' = inbox s"
    and h: "length (heap s') = length (heap s)"
      "\<forall>x < length (heap s). events (heap s' ! x) = events (heap s ! x)"
    and c: "set (clients s') \<subseteq> set (clients s)" "distinct (map snd (clients s'))"
  shows "orderly_inv s' D P"
proof -
  have p: "pending s' a = pending s a" for a using same by (simp add: pending_def)
  have r: "received s' a = received s a" if "a < length (heap s)" for a
    using that h same by (simp add: received_def)
  from inv c h same show ?thesis
    unfolding orderly_inv_def by (auto simp add: p r)
qed

lemma events_after_Close:
  "Close (h ! a) = (r, c) \<Longrightarrow> \<forall>x < length h. events (h[a := c] ! x) = events (h ! x)"
proof (intro allI impI)
  fix x
  assume "Close (h ! a) = (r, c)" and "x < length h"
  then show "events (h[a := c] ! x) = events (h ! x)"
    using events_Closed [of "h ! a" r c] by (cases "x = a") simp_all
qed

lemma inv_Unregister:
  assumes inv: "orderly_inv s D P" and np: "\<not> panicked s"
  shows "orderly_inv (exec (Unregister cid) s) D P"
proof -
  let ?s' = "exec (Unregister cid) s"
  from inv have i4: "distinct (map snd (clients s))" by (simp add: orderly_inv_def)
  have d: "distinct (map snd (filter (\<lambda>(k, a). k \<noteq> cid) (clients s)))"
    using i4 by (rule distinct_map_filter)
  show ?thesis
  proof (cases "stopped s \<or> map_of (clients s) cid = None")
    case True
    with inv np show ?thesis by (auto simp add: exec_def)
  next
    case False
    then obtain a where a: "map_of (clients s) cid = Some a" and ns: "\<not> stopped s" by auto
    show ?thesis
    proof (cases "a < length (heap s)")
      case no: False
      with inv np a ns show ?thesis by (simp add: exec_def)
    next
      case yes: True
      obtain r c where rc: "Close (heap s ! a) = (r, c)" by (cases "Close (heap s ! a)")
      note ev = events_after_Close [OF rc]
      show ?thesis
      proof (rule inv_closing [OF inv])
        show "tasks ?s' = tasks s" "streams ?s' = streams s" "inbox ?s' = inbox s"
          using np a ns yes rc by (cases r; simp add: exec_def)+
        show "length (heap ?s') = length (heap s)"
          using np a ns yes rc by (cases r) (simp_all add: exec_def)
        show "\<forall>x < length (heap s). events (heap ?s' ! x) = events (heap s ! x)"
          using np a ns yes rc ev by (cases r) (simp_all add: exec_def)
        show "set (clients ?s') \<subseteq> set (clients s)"
          using np a ns yes rc by (cases r) (auto simp add: exec_def)
        show "distinct (map snd (clients ?s'))"
          using np a ns yes rc d i4 by (cases r) (simp_all add: exec_def)
      qed
    qed
  qed
qed

lemma inv_Shutdown:
  assumes inv: "orderly_inv s D P" and np: "\<not> panicked s"
  shows "orderly_inv (exec Shutdown s) D P"
proof (cases "stopped s")
  case True
  with inv np show ?thesis by (simp add: exec_def)
next
  case False
  let ?s' = "exec Shutdown s"
  obtain p h where ph: "close_all (map snd (clients s)) (heap s) = (p, h)"
    by (cases "close_all (map snd (clients s)) (heap s)")
  from inv have i4: "distinct (map snd (clients s))" by (simp add: orderly_inv_def)
  have len: "length h = length (heap s)" using close_all_length' [OF ph] .
  have ev: "\<forall>x < length (heap s). events (h ! x) = events (heap s ! x)"
    using close_all_events [of _ "heap s" "map snd (clients s)"] ph by simp
  show ?thesis
  proof (rule inv_closing [OF inv])
    show "tasks ?s' = tasks s" "streams ?s' = streams s" "inbox ?s' = inbox s"
      using np False ph by (cases p; simp add: exec_def)+
    show "length (heap ?s') = length (heap s)"
      using np False ph len by (cases p) (simp_all add: exec_def)
    show "\<forall>x < length (heap s). events (heap ?s' ! x) = events (heap s ! x)"
      using np False ph ev by (cases p) (simp_all add: exec_def)
    show "set (clients ?s') \<subseteq> set (clients s)"
      using np False ph by (cases p) (simp_all add: exec_def)
    show "distinct (map snd (clients ?s'))"
      using np False ph i4 by (cases p) (simp_all add: exec_def)
  qed
qed

lemma inv_Publish:
  assumes inv: "orderly_inv s D P"
  shows "orderly_inv (exec (Publish now eventType data) s) D
           (P @ [\<lparr>sseID = now, sseEvent = eventType, sseData = data, sseRetry = 5000\<rparr>])"
proof -
  let ?ev = "\<lparr>sseID = now, sseEvent = eventType, sseData = data, sseRetry = 5000\<rparr>"
  from inv have i5: "subseq (D @ inbox s) P" by (simp add: orderly_inv_def)
  have keep: "orderly_inv s D (P @ [?ev])" using inv by (rule inv_more_handed)
  have add: "orderly_inv (s\<lparr>inbox := inbox s @ [?ev]\<rparr>) D (P @ [?ev])"
  proof -
    have p: "pending (s\<lparr>inbox := inbox s @ [?ev]\<rparr>) a = pending s a" for a
      by (simp add: pending_def)
    have r: "received (s\<lparr>inbox := inbox s @ [?ev]\<rparr>) a = received s a" for a
      by (simp add: received_def)
    have "subseq ((D @ inbox s) @ [?ev]) (P @ [?ev])" using i5 by (simp only: subseq_append)
    with inv show ?thesis unfolding orderly_inv_def by (simp add: p r)
  qed
  from keep add show ?thesis by (simp add: exec_def Broadcast_def Let_def)
qed

lemma inv_Write:
  assumes inv: "orderly_inv s D P" and np: "\<not> panicked s"
  shows "orderly_inv (exec (Write x) s) D P"
proof (cases "x < length (heap s) \<and> x < length (streams s)")
  case False
  with inv np show ?thesis by (auto simp add: exec_def)
next
  case True
  show ?thesis
  proof (cases "events (heap s ! x)")
    case Nil
    with inv np True show ?thesis by (simp add: exec_def)
  next
    case (Cons e rest)
    let ?s' = "s\<lparr>heap := (heap s)[x := (heap s ! x)\<lparr>events := rest\<rparr>],
                 streams := (streams s)[x := streams s ! x @ [e]]\<rparr>"
    have p: "pending ?s' a = pending s a" for a by (simp add: pending_def)
    have r: "received ?s' a = received s a" for a
      using True Cons by (cases "a = x") (simp_all add: received_def)
    have "orderly_inv ?s' D P"
      using inv unfolding orderly_inv_def by (simp add: p r)
    with np True Cons show ?thesis by (simp add: exec_def)
  qed
qed

lemma started_sends:
  "distinct (map snd cs) \<Longrightarrow>
   map snd (filter (\<lambda>(a', b). a' = a) (map (\<lambda>(k, a). (a, bytes)) cs)) = []
   \<or> map snd (filter (\<lambda>(a', b). a' = a) (map (\<lambda>(k, a). (a, bytes)) cs)) = [bytes]"
proof (induction cs)
  case Nil
  then show ?case by simp
next
  case (Cons c cs)
  obtain k a0 where c: "c = (k, a0)" by (cases c)
  show ?case
  proof (cases "a0 = a")
    case True
    with Cons.prems c have "a \<notin> snd ` set cs" by simp
    then have "filter (\<lambda>(a', b). a' = a) (map (\<lambda>(k, a). (a, bytes)) cs) = []"
      by (force simp add: filter_empty_conv)
    with True c show ?thesis by simp
  next
    case False
    with Cons c show ?thesis by simp
  qed
qed

lemma inv_Dispatch:
  assumes inv: "orderly_inv s D P" and np: "\<not> panicked s" and quiet: "tasks s = []"
  shows "\<exists>D'. orderly_inv (exec Dispatch s) D' P"
proof (cases "stopped s \<or> inbox s = []")
  case True
  with np have "exec Dispatch s = s" by (auto simp add: exec_def)
  with inv show ?thesis by auto
next
  case False
  then obtain ev rest where ib: "inbox s = ev # rest" and ns: "\<not> stopped s"
    by (cases "inbox s") auto
  from inv have i1: "length (streams s) = length (heap s)"
    and i3: "\<forall>(k, a) \<in> set (clients s). a < length (heap s)"
    and i4: "distinct (map snd (clients s))"
    and i5: "subseq (D @ inbox s) P"
    and i6: "\<forall>a < length (heap s). subseq (received s a @ pending s a) (wire D)"
    by (simp_all add: orderly_inv_def)
  have none: "pending s a = []" for a using quiet by (simp add: pending_def)
  have i5': "subseq ((D @ [ev]) @ rest) P" using i5 ib by simp
  show ?thesis
  proof (cases "serializeEvent ev")
    case None
    let ?s' = "s\<lparr>inbox := rest\<rparr>"
    have e: "exec Dispatch s = ?s'" using np ns ib None by (simp add: exec_def)
    have w: "wire (D @ [ev]) = wire D" using None by (simp add: wire_def map_filter_def)
    have p: "pending ?s' a = pending s a" for a by (simp add: pending_def)
    have r: "received ?s' a = received s a" for a by (simp add: received_def)
    have "orderly_inv ?s' (D @ [ev]) P"
      using inv i5' unfolding orderly_inv_def by (simp add: p r w del: append_assoc)
    with e show ?thesis by auto
  next
    case (Some bytes)
    let ?s' = "s\<lparr>inbox := rest, tasks := tasks s @ map (\<lambda>(k, a). (a, bytes)) (clients s)\<rparr>"
    have e: "exec Dispatch s = ?s'" using np ns ib Some by (simp add: exec_def)
    have w: "wire (D @ [ev]) = wire D @ [bytes]" using Some by (simp add: wire_def map_filter_def)
    have p: "pending ?s' a = [] \<or> pending ?s' a = [bytes]" for a
      using started_sends [OF i4, of a bytes] quiet by (simp add: pending_def)
    have r: "received ?s' a = received s a" for a by (simp add: received_def)
    have c6: "\<forall>a < length (heap ?s'). subseq (received ?s' a @ pending ?s' a) (wire (D @ [ev]))"
    proof (intro allI impI)
      fix a
      assume "a < length (heap ?s')"
      then have "a < length (heap s)" by simp
      with i6 have "subseq (received s a @ pending s a) (wire D)" by blast
      then have base: "subseq (received s a) (wire D)" by (simp add: none)
      from p [of a] show "subseq (received ?s' a @ pending ?s' a) (wire (D @ [ev]))"
      proof
        assume "pending ?s' a = []"
        with base show ?thesis by (simp add: r w subseq_rev_drop_many)
      next
        assume "pending ?s' a = [bytes]"
        with base show ?thesis by (simp add: r w)
      qed
    qed
    have c7: "\<forall>a. length (pending ?s' a) \<le> 1"
    proof
      fix a
      from p [of a] show "length (pending ?s' a) \<le> 1" by auto
    qed
    have "orderly_inv ?s' (D @ [ev]) P"
      unfolding orderly_inv_def
    proof (intro conjI)
      show "length (streams ?s') = length (heap ?s')" using i1 by simp
      show "\<forall>(a, b) \<in> set (tasks ?s'). a < length (heap ?s')" using i3 quiet by auto
      show "\<forall>(k, a) \<in> set (clients ?s'). a < length (heap ?s')" using i3 by simp
      show "distinct (map snd (clients ?s'))" using i4 by simp
      show "subseq ((D @ [ev]) @ inbox ?s') P" using i5' by simp
      show "\<forall>a < length (heap ?s'). subseq (received ?s' a @ pending ?s' a) (wire (D @ [ev]))"
        by (rule c6)
      show "\<forall>a. length (pending ?s' a) \<le> 1" by (rule c7)
    qed
    with e show ?thesis by auto
  qed
qed

lemma filter_remove_nth:
  assumes k: "k < length xs"
  shows "filter Q xs = filter Q (take k xs) @ (if Q (xs ! k) then [xs ! k] else [])
                         @ filter Q (drop (Suc k) xs)"
    and "filter Q (remove_nth k xs) = filter Q (take k xs) @ filter Q (drop (Suc k) xs)"
proof -
  have "xs = take k xs @ xs ! k # drop (Suc k) xs" using k by (rule id_take_nth_drop)
  then have "filter Q xs = filter Q (take k xs @ xs ! k # drop (Suc k) xs)" by simp
  then show "filter Q xs = filter Q (take k xs) @ (if Q (xs ! k) then [xs ! k] else [])
                         @ filter Q (drop (Suc k) xs)"
    by simp
  show "filter Q (remove_nth k xs) = filter Q (take k xs) @ filter Q (drop (Suc k) xs)"
    by (simp add: remove_nth_def)
qed

lemma pending_Fire_other:
  assumes "k < length (tasks s)" and "fst (tasks s ! k) \<noteq> x"
    and "tasks s' = remove_nth k (tasks s)"
  shows "pending s' x = pending s x"
  using assms filter_remove_nth [of k "tasks s" "\<lambda>(a', b). a' = x"]
  by (simp add: pending_def case_prod_beta)

lemma pending_Fire_target:
  assumes k: "k < length (tasks s)" and one: "length (pending s (fst (tasks s ! k))) \<le> 1"
    and rm: "tasks s' = remove_nth k (tasks s)"
  shows "pending s (fst (tasks s ! k)) = [snd (tasks s ! k)]"
    and "pending s' (fst (tasks s ! k)) = []"
proof -
  let ?a = "fst (tasks s ! k)"
  let ?Q = "\<lambda>(a', b). a' = ?a"
  let ?A = "filter ?Q (take k (tasks s))"
  let ?B = "filter ?Q (drop (Suc k) (tasks s))"
  have q: "?Q (tasks s ! k)" by (simp add: case_prod_beta)
  from filter_remove_nth(1) [OF k, of ?Q] q
  have f: "filter ?Q (tasks s) = ?A @ [tasks s ! k] @ ?B" by simp
  with one have "length ?A + length ?B = 0"
    unfolding pending_def by (simp del: filter.simps)
  then have ab: "?A = []" "?B = []" by simp_all
  with f show "pending s ?a = [snd (tasks s ! k)]" by (simp add: pending_def)
  from filter_remove_nth(2) [OF k, of ?Q] ab rm show "pending s' ?a = []"
    by (simp add: pending_def)
qed

lemma inv_Fire:
  assumes inv: "orderly_inv s D P" and np: "\<not> panicked s"
  shows "orderly_inv (exec (Fire k pick) s) D P"
proof (cases "k < length (tasks s) \<and> fst (tasks s ! k) < length (heap s)")
  case False
  with np have "exec (Fire k pick) s = s" by (auto simp add: exec_def)
  with inv show ?thesis by simp
next
  case True
  let ?s' = "exec (Fire k pick) s"
  let ?a = "fst (tasks s ! k)"
  let ?b = "snd (tasks s ! k)"
  from True have k: "k < length (tasks s)" and a: "?a < length (heap s)" by simp_all
  from inv have i1: "length (streams s) = length (heap s)"
    and i2: "\<forall>(a, bytes) \<in> set (tasks s). a < length (heap s)"
    and i3: "\<forall>(k, a) \<in> set (clients s). a < length (heap s)"
    and i4: "distinct (map snd (clients s))"
    and i5: "subseq (D @ inbox s) P"
    and i6: "\<forall>a < length (heap s). subseq (received s a @ pending s a) (wire D)"
    and i7: "\<forall>a. length (pending s a) \<le> 1"
    by (simp_all add: orderly_inv_def)
  obtain r c where rc: "Send pick (heap s ! ?a) ?b = (r, c)"
    by (cases "Send pick (heap s ! ?a) ?b")
  then have c: "r = Panic \<or> (\<exists>sent. r = Ok sent)"
    "events c = events (heap s ! ?a) \<or> events c = events (heap s ! ?a) @ [?b]"
    by (auto simp add: Send_def Let_def split: if_splits)
  have t: "tasks ?s' = remove_nth k (tasks s)"
    using np True rc by (cases r) (simp_all add: exec_def)
  have same: "streams ?s' = streams s" "inbox ?s' = inbox s" "clients ?s' = clients s"
    using np True rc by (cases r; simp add: exec_def)+
  have len: "length (heap ?s') = length (heap s)"
    using np True rc by (cases r) (simp_all add: exec_def)
  have other: "events (heap ?s' ! x) = events (heap s ! x)" if "x \<noteq> ?a" for x
    using np True rc that by (cases r) (simp_all add: exec_def)
  have target: "events (heap ?s' ! ?a) = events (heap s ! ?a)
                \<or> events (heap ?s' ! ?a) = events (heap s ! ?a) @ [?b]"
    using np True rc c(2) a by (cases r) (simp_all add: exec_def)
  have p_other: "pending ?s' x = pending s x" if "x \<noteq> ?a" for x
    using pending_Fire_other [OF k _ t, of x] that by simp
  have p_target: "pending s ?a = [?b]" "pending ?s' ?a = []"
    using pending_Fire_target [OF k _ t] i7 by simp_all
  have c6: "\<forall>x < length (heap ?s'). subseq (received ?s' x @ pending ?s' x) (wire D)"
  proof (intro allI impI)
    fix x
    assume "x < length (heap ?s')"
    with len i6 have base: "subseq (received s x @ pending s x) (wire D)" by simp
    show "subseq (received ?s' x @ pending ?s' x) (wire D)"
    proof (cases "x = ?a")
      case False
      with base other [of x] p_other [of x] same show ?thesis by (simp add: received_def)
    next
      case True
      from base True p_target have base': "subseq (received s ?a @ [?b]) (wire D)" by simp
      from target show ?thesis
      proof
        assume "events (heap ?s' ! ?a) = events (heap s ! ?a)"
        then have "received ?s' ?a = received s ?a" using same by (simp add: received_def)
        moreover have "subseq (received s ?a) (received s ?a @ [?b])"
          by (simp add: subseq_rev_drop_many)
        ultimately show ?thesis
          using base' True p_target(2) subseq_order.trans by force
      next
        assume "events (heap ?s' ! ?a) = events (heap s ! ?a) @ [?b]"
        then have "received ?s' ?a = received s ?a @ [?b]" using same by (simp add: received_def)
        with base' True p_target(2) show ?thesis by simp
      qed
    qed
  qed
  have c7: "\<forall>x. length (pending ?s' x) \<le> 1"
  proof
    fix x
    show "length (pending ?s' x) \<le> 1"
      using i7 p_other [of x] p_target(2) by (cases "x = ?a") simp_all
  qed
  have sub: "set (remove_nth k (tasks s)) \<subseteq> set (tasks s)"
    unfolding remove_nth_def using set_take_subset [of k "tasks s"] set_drop_subset [of "Suc k" "tasks s"]
    by auto
  show ?thesis
    unfolding orderly_inv_def
  proof (intro conjI)
    show "length (streams ?s') = length (heap ?s')" using i1 same len by simp
    show "\<forall>(a, b) \<in> set (tasks ?s'). a < length (heap ?s')" using i2 t sub len by auto
    show "\<forall>(k, a) \<in> set (clients ?s'). a < length (heap ?s')" using i3 same len by simp
    show "distinct (map snd (clients ?s'))" using i4 same by simp
    show "subseq (D @ inbox ?s') P" using i5 same by simp
    show "\<forall>x < length (heap ?s'). subseq (received ?s' x @ pending ?s' x) (wire D)" by (rule c6)
    show "\<forall>x. length (pending ?s' x) \<le> 1" by (rule c7)
  qed
qed

lemma inv_exec:
  assumes inv: "orderly_inv s D P" and ord: "operation = Dispatch \<longrightarrow> tasks s = []"
  shows "\<exists>D'. orderly_inv (exec operation s) D' (P @ published [operation])"
proof (cases "panicked s")
  case True
  then have "exec operation s = s" by (simp add: exec_def)
  with inv_more_handed [OF inv] show ?thesis by auto
next
  case False
  show ?thesis
  proof (cases operation)
    case (Register cid)
    with inv_Register [OF inv False] show ?thesis by auto
  next
    case (Unregister cid)
    with inv_Unregister [OF inv False] show ?thesis by auto
  next
    case (Publish now eventType data)
    with inv_Publish [OF inv] show ?thesis by auto
  next
    case Dispatch
    with inv_Dispatch [OF inv False] ord show ?thesis by auto
  next
    case (Fire k pick)
    with inv_Fire [OF inv False] show ?thesis by auto
  next
    case (Write x)
    with inv_Write [OF inv False] show ?thesis by auto
  next
    case Shutdown
    with inv_Shutdown [OF inv False] show ?thesis by auto
  qed
qed

lemma inv_run_ops:
  "orderly_inv s D P \<Longrightarrow> orderly operations s \<Longrightarrow>
   \<exists>D'. orderly_inv (run_ops operations s) D' (P @ published operations)"
proof (induction operations arbitrary: s D P)
  case Nil
  then show ?case by auto
next
  case (Cons operation operations)
  from Cons.prems(2) have ord: "operation = Dispatch \<longrightarrow> tasks s = []"
    and rest: "orderly operations (exec operation s)"
    by simp_all
  from inv_exec [OF Cons.prems(1) ord] obtain D1 where
    "orderly_inv (exec operation s) D1 (P @ published [operation])" by blast
  from Cons.IH [OF this rest] obtain D2 where
    "orderly_inv (run_ops operations (exec operation s)) D2
       ((P @ published [operation]) @ published operations)" by blast
  then have "orderly_inv (run_ops (operation # operations) s) D2
               (P @ published (operation # operations))"
    using published_Cons [of operation operations] by simp
  then show ?case by blast
qed

lemma inv_NewBroker: "orderly_inv NewBroker [] []"
  by (simp add: orderly_inv_def NewBroker_def pending_def)

lemma orderly_in_publish_order:
  assumes ord: "orderly operations NewBroker"
    and a: "a < length (heap (run_ops operations NewBroker))"
  shows "subseq (received (run_ops operations NewBroker) a) (wire (published operations))"
proof -
  let ?s = "run_ops operations NewBroker"
  from inv_run_ops [OF inv_NewBroker ord] obtain D where
    inv: "orderly_inv ?s D (published operations)" by auto
  then have 1: "subseq (received ?s a @ pending ?s a) (wire D)" using a
    by (simp add: orderly_inv_def)
  from inv have "subseq (D @ inbox ?s) (published operations)" by (simp add: orderly_inv_def)
  moreover have "subseq D (D @ inbox ?s)" by (simp add: subseq_rev_drop_many)
  ultimately have "subseq D (published operations)" using subseq_order.trans by blast
  then have 2: "subseq (wire D) (wire (published operations))" by (rule wire_subseq)
  have "subseq (received ?s a) (received ?s a @ pending ?s a)" by (simp add: subseq_rev_drop_many)
  with 1 2 show ?thesis using subseq_order.trans by blast
qed

text \<open>
  C8, as stated, fails: the loop of \<open>run\<close> starts a new goroutine for every send, and the
  goroutines of two events run in any order. In the schedule \<open>overtaking\<close> the events
  \<open>1001\<close> and \<open>1002\<close> are published in this order, and the subscriber is written \<open>1002\<close>
  first.
\<close>

theorem later_event_arrives_first:
  "wire (published overtaking) = [agent_bytes ''1001'' ''1'', agent_bytes ''1002'' ''2'']
   \<and> streams (run_ops overtaking NewBroker) ! 0
       = [agent_bytes ''1002'' ''2'', agent_bytes ''1001'' ''1'']
   \<and> \<not> panicked (run_ops overtaking NewBroker)
   \<and> \<not> orderly overtaking NewBroker"
  by code_simp

text \<open>
  C8 (amended): the queue of every subscriber is first in, first out: in every schedule,
  what a subscriber has received (what has been written to it, followed by what waits in
  its queue) is only ever extended at its end (first part). When every dispatch finds that
  the send goroutines of the earlier events have run, what each subscriber of a new broker
  has received, and so what has been written to it, is a subsequence of the published
  events in the order in which they were published (second part).
\<close>

theorem queue_is_fifo_and_orderly_delivery_in_publish_order:
  "(a < length (heap s) \<and> a < length (streams s)
    \<longrightarrow> prefix (received s a) (received (run_ops operations s) a))
   \<and> (orderly operations NewBroker \<and> a < length (heap (run_ops operations NewBroker))
    \<longrightarrow> subseq (received (run_ops operations NewBroker) a) (wire (published operations))
        \<and> subseq (streams (run_ops operations NewBroker) ! a) (wire (published operations)))"
proof (intro conjI impI)
  assume "a < length (heap s) \<and> a < length (streams s)"
  then show "prefix (received s a) (received (run_ops operations s) a)"
    by (simp add: received_run_ops)
next
  assume "orderly operations NewBroker \<and> a < length (heap (run_ops operations NewBroker))"
  then show "subseq (received (run_ops operations NewBroker) a) (wire (published operations))"
    by (simp add: orderly_in_publish_order)
next
  assume "orderly operations NewBroker \<and> a < length (heap (run_ops operations NewBroker))"
  then have "subseq (received (run_ops operations NewBroker) a) (wire (published operations))"
    by (simp add: orderly_in_publish_order)
  moreover have "subseq (streams (run_ops operations NewBroker) ! a)
                   (received (run_ops operations NewBroker) a)"
    by (simp add: received_def subseq_rev_drop_many)
  ultimately show "subseq (streams (run_ops operations NewBroker) ! a) (wire (published operations))"
    using subseq_order.trans by blast
qed

text \<open>The theorem at an orderly schedule with the events of the counterexample: the
  subscriber is written \<open>1001\<close> and then \<open>1002\<close>.\<close>

theorem queue_is_fifo_and_orderly_delivery_in_publish_order_witness:
  "received (run_ops in_turn_start NewBroker) 0 = [agent_bytes ''1001'' ''1'']
   \<and> prefix (received (run_ops in_turn_start NewBroker) 0)
        (received (run_ops in_turn_rest (run_ops in_turn_start NewBroker)) 0)
   \<and> orderly (in_turn_start @ in_turn_rest) NewBroker
   \<and> streams (run_ops (in_turn_start @ in_turn_rest) NewBroker) ! 0
       = [agent_bytes ''1001'' ''1'', agent_bytes ''1002'' ''2'']
   \<and> subseq (streams (run_ops (in_turn_start @ in_turn_rest) NewBroker) ! 0)
        (wire (published (in_turn_start @ in_turn_rest)))"
proof -
  let ?s = "run_ops in_turn_start NewBroker"
  let ?all = "in_turn_start @ in_turn_rest"
  have r: "received ?s 0 = [agent_bytes ''1001'' ''1'']" by code_simp
  have b: "0 < length (heap ?s) \<and> 0 < length (streams ?s)" by code_simp
  have 1: "prefix (received ?s 0) (received (run_ops in_turn_rest ?s) 0)"
    using queue_is_fifo_and_orderly_delivery_in_publish_order
            [where a = 0 and s = ?s and operations = in_turn_rest, THEN conjunct1] b
    by blast
  have o: "orderly ?all NewBroker" by code_simp
  have l: "0 < length (heap (run_ops ?all NewBroker))" by code_simp
  have w: "streams (run_ops ?all NewBroker) ! 0
             = [agent_bytes ''1001'' ''1'', agent_bytes ''1002'' ''2'']"
    by code_simp
  have 2: "subseq (streams (run_ops ?all NewBroker) ! 0) (wire (published ?all))"
    using queue_is_fifo_and_orderly_delivery_in_publish_order
            [where a = 0 and operations = ?all, THEN conjunct2] o l
    by blast
  from r 1 o w 2 show ?thesis by simp
qed

subsection \<open>Fence-tolerant extraction\<close>

lemma match_at_from:
  "i + length s \<le> length t \<Longrightarrow>
   match_at t s i j \<longleftrightarrow> (\<forall>k. j \<le> k \<and> k < length s \<longrightarrow> t ! (i + k) = s ! k)"
proof (induction t s i j rule: match_at.induct)
  case (1 t s i j)
  show ?case
  proof (cases "j < length s")
    case False
    then show ?thesis by (subst match_at.simps) auto
  next
    case True
    show ?thesis
    proof (cases "t ! (i + j) = s ! j")
      case False
      with True show ?thesis by (subst match_at.simps) auto
    next
      case eq: True
      have "match_at t s i j = match_at t s i (j + 1)"
        using True eq by (subst match_at.simps) simp
      also have "\<dots> \<longleftrightarrow> (\<forall>k. j + 1 \<le> k \<and> k < length s \<longrightarrow> t ! (i + k) = s ! k)"
        using "1.IH" [OF True _ "1.prems"] eq by simp
      also have "\<dots> \<longleftrightarrow> (\<forall>k. j \<le> k \<and> k < length s \<longrightarrow> t ! (i + k) = s ! k)"
      proof (intro iffI allI impI)
        fix k
        assume a: "\<forall>k. j + 1 \<le> k \<and> k < length s \<longrightarrow> t ! (i + k) = s ! k"
          and k: "j \<le> k \<and> k < length s"
        show "t ! (i + k) = s ! k"
        proof (cases "k = j")
          case True
          with eq show ?thesis by simp
        next
          case False
          with k have "j + 1 \<le> k \<and> k < length s" by simp
          with a show ?thesis by blast
        qed
      next
        fix k
        assume a: "\<forall>k. j \<le> k \<and> k < length s \<longrightarrow> t ! (i + k) = s ! k"
          and k: "j + 1 \<le> k \<and> k < length s"
        then have "j \<le> k \<and> k < length s" by simp
        with a show "t ! (i + k) = s ! k" by blast
      qed
      finally show ?thesis .
    qed
  qed
qed

lemma match_at_occurs:
  "i + length s \<le> length t \<Longrightarrow> match_at t s i 0 \<longleftrightarrow> occurs_at t s i"
proof -
  assume b: "i + length s \<le> length t"
  have "occurs_at t s i \<longleftrightarrow> (\<forall>k < length s. t ! (i + k) = s ! k)"
    using b by (auto simp add: occurs_at_def list_eq_iff_nth_eq)
  with match_at_from [OF b, of 0] show ?thesis by simp
qed

lemma findSubstring_loop_first:
  "occurs_at t s p \<Longrightarrow> i \<le> p \<Longrightarrow> (\<forall>k. i \<le> k \<and> k < p \<longrightarrow> \<not> occurs_at t s k) \<Longrightarrow>
   findSubstring_loop t s i = int p"
proof (induction t s i rule: findSubstring_loop.induct)
  case (1 t s i)
  note occ = "1.prems"(1) and ip = "1.prems"(2) and before = "1.prems"(3)
  from occ ip have bound: "i + length s \<le> length t"
    by (simp add: occurs_at_def)
  then have guard: "int i \<le> int (length t) - int (length s)" by simp
  show ?case
  proof (cases "i = p")
    case True
    with occ have "occurs_at t s i" by simp
    with bound have "match_at t s i 0" using match_at_occurs [of i s t] by blast
    with guard True show ?thesis by (subst findSubstring_loop.simps) simp
  next
    case False
    with ip have lt: "i < p" by simp
    with before have "\<not> occurs_at t s i" by blast
    with bound have nm: "\<not> match_at t s i 0" using match_at_occurs [of i s t] by blast
    have le: "i + 1 \<le> p" using lt by simp
    have rest: "\<forall>k. i + 1 \<le> k \<and> k < p \<longrightarrow> \<not> occurs_at t s k"
    proof (intro allI impI)
      fix k
      assume "i + 1 \<le> k \<and> k < p"
      then have "i \<le> k \<and> k < p" by simp
      with "1.prems"(3) show "\<not> occurs_at t s k" by blast
    qed
    have "findSubstring_loop t s (i + 1) = int p"
      by (rule "1.IH" [OF guard nm "1.prems"(1) le rest])
    with guard nm show ?thesis by (subst findSubstring_loop.simps) simp
  qed
qed

lemma findSubstring_loop_none:
  "(\<forall>k. i \<le> k \<longrightarrow> \<not> occurs_at t s k) \<Longrightarrow> findSubstring_loop t s i = - 1"
proof (induction t s i rule: findSubstring_loop.induct)
  case (1 t s i)
  show ?case
  proof (cases "int i \<le> int (length t) - int (length s)")
    case False
    then show ?thesis by (subst findSubstring_loop.simps) simp
  next
    case guard: True
    then have bound: "i + length s \<le> length t" by simp
    from "1.prems" have "\<not> occurs_at t s i" by blast
    with bound have nm: "\<not> match_at t s i 0" using match_at_occurs [of i s t] by blast
    have rest: "\<forall>k. i + 1 \<le> k \<longrightarrow> \<not> occurs_at t s k"
    proof (intro allI impI)
      fix k
      assume "i + 1 \<le> k"
      then have "i \<le> k" by simp
      with "1.prems" show "\<not> occurs_at t s k" by blast
    qed
    have "findSubstring_loop t s (i + 1) = - 1"
      by (rule "1.IH" [OF guard nm rest])
    with guard nm show ?thesis by (subst findSubstring_loop.simps) simp
  qed
qed

lemma findSubstring_first:
  "occurs_at t s p \<Longrightarrow> (\<forall>k < p. \<not> occurs_at t s k) \<Longrightarrow>
   findSubstring t s = int p"
  using findSubstring_loop_first [of t s p 0] by (simp add: findSubstring_def)

lemma findSubstring_none:
  "(\<forall>k. \<not> occurs_at t s k) \<Longrightarrow> findSubstring t s = - 1"
  using findSubstring_loop_none [of 0 t s] by (simp add: findSubstring_def)

lemma occurs_at_sublist: "(\<exists>k. occurs_at t s k) \<longleftrightarrow> sublist s t"
proof
  assume "\<exists>k. occurs_at t s k"
  then obtain k where k: "occurs_at t s k" ..
  then have "t = take k t @ s @ drop (k + length s) t"
  proof -
    have "take k t @ (take (length s) (drop k t) @ drop (length s) (drop k t)) = t"
      by (simp only: append_take_drop_id)
    moreover have "take (length s) (drop k t) = s" using k by (simp add: occurs_at_def)
    moreover have "drop (length s) (drop k t) = drop (k + length s) t"
      by (simp add: add.commute)
    ultimately show ?thesis by simp
  qed
  then show "sublist s t" unfolding sublist_def by blast
next
  assume "sublist s t"
  then obtain ps ss where "t = ps @ s @ ss" unfolding sublist_def by blast
  then have "occurs_at t s (length ps)" by (simp add: occurs_at_def)
  then show "\<exists>k. occurs_at t s k" ..
qed

lemma occurs_at_nth: "occurs_at t s k \<Longrightarrow> m < length s \<Longrightarrow> t ! (k + m) = s ! m"
proof -
  assume o: "occurs_at t s k" and m: "m < length s"
  from o have eq: "take (length s) (drop k t) = s" and b: "k + length s \<le> length t"
    by (simp_all add: occurs_at_def)
  have "take (length s) (drop k t) ! m = t ! (k + m)" using m b by simp
  with eq show ?thesis by simp
qed

lemma occurs_at_Cons: "occurs_at (c # xs) s (Suc k) \<longleftrightarrow> occurs_at xs s k"
  by (simp add: occurs_at_def)

lemma occurs_at_append_left:
  "occurs_at (xs @ ys) s k \<Longrightarrow> k + length s \<le> length xs \<Longrightarrow> occurs_at xs s k"
  by (simp add: occurs_at_def)

lemma codeStart_nth: "m < 3 \<Longrightarrow> codeStart ! m = backtick"
  by (cases m) (auto simp add: codeStart_def nth_Cons split: nat.splits)

lemma no_occurrence_before_closing_fence:
  assumes free: "\<not> sublist codeStart j" and k: "k < length j + 2"
  shows "\<not> occurs_at (newline # j @ newline # codeStart) codeStart k"
proof
  let ?t = "newline # j @ newline # codeStart"
  assume occ: "occurs_at ?t codeStart k"
  have len: "length codeStart = 3" by (simp add: codeStart_def)
  have nb: "newline \<noteq> backtick" by (simp add: newline_def backtick_def)
  consider (first) "k = 0" | (inside) "0 < k" "k + 3 \<le> length j + 1" | (over) "length j + 1 < k + 3"
    by linarith
  then show False
  proof cases
    case first
    from occurs_at_nth [OF occ, of 0] have "?t ! k = codeStart ! 0" by (simp add: len)
    with first nb show False by (simp add: codeStart_def)
  next
    case inside
    then obtain k' where k': "k = Suc k'" by (cases k) auto
    from occ k' have "occurs_at (j @ newline # codeStart) codeStart k'"
      by (simp add: occurs_at_Cons)
    with inside k' have "occurs_at j codeStart k'"
      by (intro occurs_at_append_left [of j "newline # codeStart" codeStart k']) (simp_all add: len)
    then have "sublist codeStart j" using occurs_at_sublist [of j codeStart] by blast
    with free show False by simp
  next
    case over
    define m where "m = length j + 1 - k"
    from over k have m: "m < 3" "k + m = length j + 1" by (simp_all add: m_def)
    from occurs_at_nth [OF occ, of m] m have "?t ! (length j + 1) = codeStart ! m"
      by (simp add: len)
    moreover have "?t ! (length j + 1) = newline" by (simp add: nth_append)
    ultimately show False using nb codeStart_nth [OF m(1)] by simp
  qed
qed

lemma find_closing_fence:
  assumes free: "\<not> sublist codeStart j"
  shows "findSubstring (newline # j @ newline # codeStart) codeStart = int (length j + 2)"
proof (rule findSubstring_first)
  show "occurs_at (newline # j @ newline # codeStart) codeStart (length j + 2)"
    by (simp add: occurs_at_def)
  show "\<forall>k<length j + 2. \<not> occurs_at (newline # j @ newline # codeStart) codeStart k"
    using no_occurrence_before_closing_fence [OF free] by blast
qed

lemma find_json_fence: "findSubstring (fenced j) jsonStart = 0"
proof -
  have "occurs_at (fenced j) jsonStart 0" by (simp add: occurs_at_def fenced_def)
  then show ?thesis using findSubstring_first [of "fenced j" jsonStart 0] by simp
qed

lemma length_jsonStart: "length jsonStart = 7"
  by (simp add: jsonStart_def codeStart_def)

lemma slice_fenced_tail:
  "slice (fenced j) 7 (int (length (fenced j))) = newline # j @ newline # codeStart"
  by (simp add: slice_def fenced_def length_jsonStart)

lemma slice_fenced_body:
  "slice (fenced j) 7 (7 + int (length j + 2)) = newline # j @ [newline]"
proof -
  have n: "nat (7 + int (length j + 2) - 7) = Suc (Suc (length j))" by simp
  show ?thesis unfolding slice_def n by (simp add: fenced_def length_jsonStart)
qed

lemma extract_fenced:
  assumes free: "\<not> sublist codeStart j"
  shows "extractJSONFromResponse (fenced j) = newline # j @ [newline]"
proof -
  have e: "find_end (fenced j) 7 endMarkers = 7 + int (length j + 2)"
    by (simp add: endMarkers_def slice_fenced_tail find_closing_fence [OF free])
  show ?thesis
    unfolding extractJSONFromResponse_def Let_def find_json_fence length_jsonStart
    using e slice_fenced_body [of j] by simp
qed

lemma findSubstring_absent: "\<not> sublist s t \<Longrightarrow> findSubstring t s = - 1"
  using findSubstring_none [of t s] occurs_at_sublist [of t s] by blast

lemma extract_plain:
  assumes free: "\<not> sublist codeStart j"
  shows "extractJSONFromResponse j = []"
proof -
  have "sublist codeStart jsonStart" by (simp add: jsonStart_def)
  with free have "\<not> sublist jsonStart j"
    using sublist_order.order_trans by blast
  then have 1: "findSubstring j jsonStart = - 1" by (rule findSubstring_absent)
  have 2: "findSubstring j codeStart = - 1" using free by (rule findSubstring_absent)
  show ?thesis unfolding extractJSONFromResponse_def Let_def 1 2 by simp
qed

text \<open>
  C9, as stated, fails when the JSON content itself contains three backticks (here inside
  the thought): the raw text parses to the plan, but in the fenced text the scan for the
  closing fence stops at the backticks of the thought, the extracted text ends in the
  middle of a string and the parse fails. The decoder is applied to the fenced text
  (not JSON), to the cut text (not JSON) and to the raw text.
\<close>

theorem parse_fenced_backticks_differ:
  "extractJSONFromResponse (fenced (plan_json ticks_thought))
     = newline # ''{'' @ quoted ''thought'' @ '':'' @ [dq] @ ''wrap the answer in ''
   \<and> ParseExecutionPlan
         (decodes [(plan_json ticks_thought, \<lparr>Thought = ticks_thought, Steps = [Some reason_step]\<rparr>)])
         (fenced (plan_json ticks_thought))
       = Err (DecodeFailed ''invalid character'')
   \<and> ParseExecutionPlan
         (decodes [(plan_json ticks_thought, \<lparr>Thought = ticks_thought, Steps = [Some reason_step]\<rparr>)])
         (plan_json ticks_thought)
       = Ok \<lparr>Thought = ticks_thought, Steps = [Some reason_step]\<rparr>"
  by code_simp

text \<open>
  C9 (amended): for JSON content without three backticks in a row, and a decoder that
  rejects the fenced text without storing anything and ignores the line feeds around the
  content (as encoding/json does), parsing the content in a \<open>json\<close> fence and parsing
  the raw content yield the same plan, or both yield none.
\<close>

theorem parse_fenced_same_plan:
  assumes free: "\<not> sublist codeStart j"
    and rejects: "\<exists>e. unmarshal (fenced j) zero_plan = (Some e, zero_plan)"
    and spaces: "unmarshal (newline # j @ [newline]) zero_plan = unmarshal j zero_plan"
  shows "plan_of (ParseExecutionPlan unmarshal (fenced j))
           = plan_of (ParseExecutionPlan unmarshal j)"
proof -
  from rejects obtain e where e: "unmarshal (fenced j) zero_plan = (Some e, zero_plan)" ..
  obtain r p where rp: "unmarshal j zero_plan = (r, p)" by (cases "unmarshal j zero_plan")
  show ?thesis
  proof (cases r)
    case None
    with rp e spaces show ?thesis
      by (simp add: ParseExecutionPlan_def extract_fenced [OF free])
  next
    case (Some e2)
    with rp e spaces show ?thesis
      by (simp add: ParseExecutionPlan_def extract_fenced [OF free] extract_plain [OF free]
            plan_of_def)
  qed
qed

text \<open>The theorem at the text of a plan with the thought \<open>add the numbers\<close>.\<close>

theorem parse_fenced_same_plan_witness:
  "\<not> sublist codeStart (plan_json ''add the numbers'')
   \<and> plan_of (ParseExecutionPlan
          (decodes [(plan_json ''add the numbers'',
                     \<lparr>Thought = ''add the numbers'', Steps = [Some reason_step]\<rparr>)])
          (fenced (plan_json ''add the numbers'')))
       = Some \<lparr>Thought = ''add the numbers'', Steps = [Some reason_step]\<rparr>
   \<and> plan_of (ParseExecutionPlan
          (decodes [(plan_json ''add the numbers'',
                     \<lparr>Thought = ''add the numbers'', Steps = [Some reason_step]\<rparr>)])
          (plan_json ''add the numbers''))
       = Some \<lparr>Thought = ''add the numbers'', Steps = [Some reason_step]\<rparr>"
proof -
  let ?j = "plan_json ''add the numbers''"
  let ?d = "decodes [(?j, \<lparr>Thought = ''add the numbers'', Steps = [Some reason_step]\<rparr>)]"
  have free: "\<not> sublist codeStart ?j" by code_simp
  have "?d (fenced ?j) zero_plan = (Some ''invalid character'', zero_plan)" by code_simp
  then have rejects: "\<exists>e. ?d (fenced ?j) zero_plan = (Some e, zero_plan)" by blast
  have spaces: "?d (newline # ?j @ [newline]) zero_plan = ?d ?j zero_plan" by code_simp
  have raw: "plan_of (ParseExecutionPlan ?d ?j)
               = Some \<lparr>Thought = ''add the numbers'', Steps = [Some reason_step]\<rparr>"
    by code_simp
  from parse_fenced_same_plan [of ?j ?d, OF free rejects spaces] raw free show ?thesis by simp
qed

subsection \<open>A validated plan that panics\<close>

text \<open>
  C10: there is a plan that both validators accept and whose execution panics. The tool
  step of \<open>number_input_plan\<close> has the key \<open>input\<close> with a number as its value: the
  structural validator finds the key, the semantic validation checks \<open>tool_name\<close> and the
  relevance only, and \<open>executeToolStep\<close> asserts that the value is a string. The whole
  run panics too, when the model answers with the JSON text of this plan.
\<close>

theorem validated_plan_panics:
  "has_key (Parameters number_input_step) ''input''
   \<and> get_string (Parameters number_input_step) ''input'' = None
   \<and> validatePlan number_input_plan = Ok ()
   \<and> Agent_validatePlan number_input_agent number_input_plan ''weather'' start_state = Ok ()
   \<and> fst (executeStep number_input_agent number_input_step start_state) = Panic
   \<and> fst (Execute number_input_agent ''weather'' start_state) = Panic"
  by code_simp

end
